(* ===== verification/Prelude.thy ===== *)
theory Prelude
  imports Main "HOL-Library.Multiset"
begin

text \<open>
  Shared vocabulary of the development: the type names of the model (timestamps are
  JavaScript millisecond numbers read as integers, URLs and chat identifiers as the
  source keeps them), the collection \<open>pipeline_simps\<close> of unfolding rules that the
  component theories feed, and generic lemmas on lists, sorting by key and
  key-directed replacement that several components use.
\<close>

type_synonym timestamp = int
type_synonym url = string

named_theorems pipeline_simps "unfolding rules of the update pipeline"

subsection \<open>Replacing list elements by key\<close>

text \<open>
  The merge-back of the store (\<open>UserStore.updateSubscriptions\<close>) replaces every element
  of a list by the first element of a second list with the same key. It is stated here
  over an arbitrary element type and key function, so that the same lemmas serve the
  value-level store and the reference-level bot, which compares keys through its object
  heap.
\<close>

definition replace_by_key :: "('a \<Rightarrow> 'k) \<Rightarrow> 'a list \<Rightarrow> 'a list \<Rightarrow> 'a list" where
  "replace_by_key key upd xs =
     map (\<lambda>x. case find (\<lambda>u. key u = key x) upd of Some u \<Rightarrow> u | None \<Rightarrow> x) xs"

text \<open>
  A list in decreasing order of an integer key (the order of JavaScript's
  \<open>Array.prototype.sort\<close> with comparator \<open>(a, b) => k b - k a\<close>).
\<close>

definition desc_by :: "('a \<Rightarrow> int) \<Rightarrow> 'a list \<Rightarrow> bool" where
  "desc_by k xs \<longleftrightarrow> sorted_wrt (\<lambda>a b. k b \<le> k a) xs"

lemma find_key_Some:
  "find (\<lambda>u. key u = k) upd = Some u \<Longrightarrow> key u = k \<and> u \<in> set upd"
  by (auto simp: find_Some_iff)

lemma replace_by_key_keys [simp]:
  "map key (replace_by_key key upd xs) = map key xs"
  by (induction xs) (auto simp: replace_by_key_def dest: find_key_Some split: option.split)

lemma length_replace_by_key [simp]:
  "length (replace_by_key key upd xs) = length xs"
  by (simp add: replace_by_key_def)

lemma replace_by_key_idem:
  "replace_by_key key upd (replace_by_key key upd xs) = replace_by_key key upd xs"
proof -
  have "(case find (\<lambda>u. key u = key y) upd of Some u \<Rightarrow> u | None \<Rightarrow> y) = y"
    if y: "y = (case find (\<lambda>u. key u = key x) upd of Some u \<Rightarrow> u | None \<Rightarrow> x)" for x y
  proof (cases "find (\<lambda>u. key u = key x) upd")
    case None
    with y show ?thesis by simp
  next
    case (Some u)
    with y have "key y = key x" by (auto dest: find_key_Some)
    with Some y show ?thesis by simp
  qed
  then show ?thesis by (simp add: replace_by_key_def)
qed

lemma replace_by_key_nth:
  "i < length xs \<Longrightarrow> replace_by_key key upd xs ! i =
     (case find (\<lambda>u. key u = key (xs ! i)) upd of Some u \<Rightarrow> u | None \<Rightarrow> xs ! i)"
  by (simp add: replace_by_key_def)

lemma replace_by_key_Nil [simp]: "replace_by_key key [] xs = xs"
  by (simp add: replace_by_key_def)

lemma replace_by_key_inj:
  "inj_on key (set xs \<union> set upd) \<Longrightarrow> replace_by_key key upd xs = xs"
  unfolding replace_by_key_def
proof (induction xs)
  case (Cons x xs)
  have "(case find (\<lambda>u. key u = key x) upd of Some u \<Rightarrow> u | None \<Rightarrow> x) = x"
  proof (cases "find (\<lambda>u. key u = key x) upd")
    case (Some u)
    then have "key u = key x" "u \<in> set upd" by (auto dest: find_key_Some)
    with inj_onD [OF Cons.prems, of u x] have "u = x" by simp
    with Some show ?thesis by simp
  qed simp
  with Cons show ?case by (auto intro: inj_on_subset)
qed simp

subsection \<open>Descending order by an integer key\<close>

text \<open>
  JavaScript's \<open>Array.prototype.sort\<close> with comparator \<open>(a, b) => k b - k a\<close> is the
  stable sort by decreasing \<open>k\<close>; in HOL it is \<open>sort_key (\<lambda>x. - k x)\<close>, whose key
  increases along the list.
\<close>

lemma desc_by_iff_sorted_neg: "desc_by k xs \<longleftrightarrow> sorted (map (\<lambda>x. - k x) xs)"
  by (simp add: desc_by_def sorted_map)

lemma desc_by_sort_key [simp]: "desc_by k (sort_key (\<lambda>x. - k x) xs)"
  by (simp add: desc_by_iff_sorted_neg)

lemma desc_by_take: "desc_by k xs \<Longrightarrow> desc_by k (take n xs)"
  by (simp add: desc_by_def sorted_wrt_take)

lemma desc_by_take_drop:
  "desc_by k xs \<Longrightarrow> a \<in> set (take n xs) \<Longrightarrow> b \<in> set (drop n xs) \<Longrightarrow> k b \<le> k a"
  unfolding desc_by_def
  by (metis append_take_drop_id sorted_wrt_append)

lemma sort_key_unique:
  assumes "mset ys = mset xs" and "sorted (map f ys)"
    and "\<And>k. filter (\<lambda>y. f y = k) ys = filter (\<lambda>y. f y = k) xs"
  shows "sort_key f xs = ys"
proof (rule properties_for_sort_key)
  fix k
  have "(\<lambda>x. f k = f x) = (\<lambda>y. f y = f k)" by auto
  then show "filter (\<lambda>x. f k = f x) ys = filter (\<lambda>x. f k = f x) xs"
    using assms(3) [of "f k"] by simp
qed (use assms in auto)

end
