(* ===== verification/Model.thy ===== *)
theory Model
  imports Prelude
begin

text \<open>
  The data model of \<open>src/model.ts\<close> and the configuration of \<open>src/settings.ts\<close>.
  Optional TypeScript fields (\<open>etag?\<close>, \<open>refreshRate?\<close>, \<open>hashtags?\<close>) are
  \<open>option\<close> values, \<open>None\<close> standing for both \<open>undefined\<close> and \<open>null\<close>, which the
  code never distinguishes (a JSON round trip through the store turns either into the
  same absent value). Post fields copied from a parsed feed item may be missing at run
  time although the interface types them as strings, so they are \<open>string option\<close>.
\<close>

record subscription =
  chatId :: int
  url :: url
  lastFetched :: timestamp
  etag :: "string option"
  refreshRate :: "int option"

definition newSubscription :: "int \<Rightarrow> url \<Rightarrow> subscription" where
  "newSubscription c u =
     \<lparr>chatId = c, url = u, lastFetched = 0, etag = None, refreshRate = None\<rparr>"

text \<open>The TypeScript field \<open>id\<close> is \<open>uid\<close> here (\<open>id\<close> is the HOL identity).\<close>

record user =
  uid :: int
  subscriptions :: "subscription list"
  user_defaultRefreshRate :: "int option"
  user_postsToLoadOnNewSub :: "int option"

definition newUser :: "int \<Rightarrow> user" where
  "newUser i = \<lparr>uid = i, subscriptions = [], user_defaultRefreshRate = None,
                user_postsToLoadOnNewSub = None\<rparr>"

record post =
  title :: "string option"
  link :: "string option"
  description :: "string option"
  pubDate :: timestamp
  hashtags :: "string list option"

text \<open>The interface \<open>Update\<close> (capitalised as in the source: the new posts of one subscription).\<close>

record Update =
  subscription :: subscription
  feedTitle :: "string option"
  posts :: "post list"

text \<open>\<open>defaultSettings\<close> of \<open>src/settings.ts\<close>.\<close>

record settings =
  maxUsers :: nat
  maxSubscriptionsPerUser :: nat
  postsToLoadOnNewSub :: nat
  defaultRefreshRate :: nat

definition defaultSettings :: settings where
  "defaultSettings = \<lparr>maxUsers = 100, maxSubscriptionsPerUser = 1000,
                      postsToLoadOnNewSub = 5, defaultRefreshRate = 15\<rparr>"

lemma defaultSettings_postsToLoadOnNewSub [simp, pipeline_simps]:
  "postsToLoadOnNewSub defaultSettings = 5"
  by (simp add: defaultSettings_def)

lemma newSubscription_fields [simp]:
  "chatId (newSubscription c u) = c" "url (newSubscription c u) = u"
  "lastFetched (newSubscription c u) = 0" "etag (newSubscription c u) = None"
  by (simp_all add: newSubscription_def)

lemma newUser_fields [simp]:
  "uid (newUser i) = i" "subscriptions (newUser i) = []"
  by (simp_all add: newUser_def)

end
