(* ===== verification/Rss.thy ===== *)
theory Rss
  imports Prelude
begin

text \<open>
  \<open>parseRSS\<close> of \<open>src/rss.ts\<close>. The XML text is turned into a DOM by the xmldom
  library, which the source only calls; the model starts from that DOM: a document is
  the list of its top-level nodes, an element has a tag name and child nodes, text and
  CDATA nodes carry text, and every other node (comment, processing instruction) is
  \<open>XOther\<close>. Only element nodes own a \<open>tagName\<close> property, which is the test
  \<open>hasOwnProperty('tagName')\<close> of the source.
  An \<open>Item\<close> is a JavaScript object with string values, here a map from keys to
  strings. A \<open>Channel\<close> is an object whose key \<open>items\<close> holds the item array until
  a child element named \<open>items\<close> overwrites it with a string; the record keeps the
  \<open>items\<close> slot apart from the other string-valued keys.
\<close>

datatype xnode = XElem string "xnode list" | XText string | XOther

type_synonym document = "xnode list"

type_synonym item = "string \<rightharpoonup> string"

datatype chval = CItems "item list" | CStr string

record channel =
  chan_items :: chval
  chan_fields :: "string \<rightharpoonup> string"

datatype rss_error = MissingRss | MissingChannel

subsection \<open>DOM accessors\<close>

text \<open>\<open>Node.textContent\<close>: the text of all text descendants, in document order.\<close>

fun textContent :: "xnode \<Rightarrow> string" where
  "textContent (XElem t cs) = concat (map textContent cs)"
| "textContent (XText s) = s"
| "textContent XOther = []"

fun childNodes :: "xnode \<Rightarrow> xnode list" where
  "childNodes (XElem t cs) = cs"
| "childNodes _ = []"

text \<open>All descendants in document (pre-)order, as the live \<open>NodeList\<close> lists them.\<close>

fun descendants :: "xnode \<Rightarrow> xnode list" where
  "descendants (XElem t cs) = concat (map (\<lambda>c. c # descendants c) cs)"
| "descendants _ = []"

fun has_tag :: "string \<Rightarrow> xnode \<Rightarrow> bool" where
  "has_tag n (XElem t cs) = (t = n)"
| "has_tag n _ = False"

definition getElementsByTagName :: "xnode \<Rightarrow> string \<Rightarrow> xnode list" where
  "getElementsByTagName e n = filter (has_tag n) (descendants e)"

definition doc_getElementsByTagName :: "document \<Rightarrow> string \<Rightarrow> xnode list" where
  "doc_getElementsByTagName d n = filter (has_tag n) (concat (map (\<lambda>c. c # descendants c) d))"

subsection \<open>The parser\<close>

text \<open>
  One item: every child element sets the key of its tag name to its text content, a
  later child with the same tag overwriting an earlier one (\<open>textContent || ''\<close> is
  the text content itself, which is never \<open>null\<close> on an element).
\<close>

fun item_field :: "item \<Rightarrow> xnode \<Rightarrow> item" where
  "item_field it (XElem t cs) = it(t \<mapsto> textContent (XElem t cs))"
| "item_field it _ = it"

definition parse_item :: "xnode \<Rightarrow> item" where
  "parse_item e = foldl item_field Map.empty (childNodes e)"

fun channel_field :: "channel \<Rightarrow> xnode \<Rightarrow> channel" where
  "channel_field ch (XElem t cs) =
     (if t \<noteq> ''item'' then
        (if t = ''items'' then ch\<lparr>chan_items := CStr (textContent (XElem t cs))\<rparr>
         else ch\<lparr>chan_fields := (chan_fields ch)(t \<mapsto> textContent (XElem t cs))\<rparr>)
      else ch)"
| "channel_field ch _ = ch"

definition parseRSS :: "document \<Rightarrow> rss_error + channel" where
  "parseRSS d =
     (case doc_getElementsByTagName d ''rss'' of
        [rssElement] \<Rightarrow>
          (case getElementsByTagName rssElement ''channel'' of
             [channelElement] \<Rightarrow>
               (let its = map parse_item (getElementsByTagName channelElement ''item'');
                    ch0 = \<lparr>chan_items = CItems its, chan_fields = Map.empty\<rparr>
                in Inr (foldl channel_field ch0 (childNodes channelElement)))
           | _ \<Rightarrow> Inl MissingChannel)
      | _ \<Rightarrow> Inl MissingRss)"

subsection \<open>Reading a parsed channel\<close>

text \<open>
  \<open>for (const item of feed.channel.items)\<close>: the item array, or, after a child
  \<open>items\<close> replaced it by a string, the characters of that string, each of which has
  none of the keys the updater reads.
\<close>

fun chval_items :: "chval \<Rightarrow> item list" where
  "chval_items (CItems its) = its"
| "chval_items (CStr s) = map (\<lambda>_. Map.empty) s"

definition channel_items :: "channel \<Rightarrow> item list" where
  "channel_items ch = chval_items (chan_items ch)"

definition channel_title :: "channel \<Rightarrow> string option" where
  "channel_title ch = chan_fields ch ''title''"

end
