(* ===== verification/Updater.thy ===== *)
theory Updater
  imports Model Rss
begin

text \<open>
  \<open>src/updater.ts\<close>: the feed cache, the post differ \<open>getNewPosts\<close>, the
  per-subscription fetcher \<open>fetchSubscriptionUpdates\<close> and the batch \<open>fetchUpdates\<close>.

  The environment the code calls is a parameter: the network (\<open>fetch\<close>) is a function
  from URL and conditional header to a response, \<open>None\<close> when the promise rejects
  (transport error); \<open>new Date(s).getTime()\<close> is a date parser returning \<open>None\<close> for
  \<open>NaN\<close>; \<open>Date.now()\<close> is a timestamp argument. The module-level \<open>feedCache\<close> and
  the log of network requests issued form the state \<open>fetch_state\<close>, passed explicitly.

  \<open>fetchSubscriptionUpdates\<close> is split where the source awaits the network:
  \<open>fsu_begin\<close> is the synchronous prefix (cache lookup, header construction, request),
  \<open>fsu_resume\<close> the continuation after the response. Run one after the other they
  give the sequential function; a \<open>Promise.all\<close> batch runs every prefix first and the
  continuations afterwards, which is what the batch model below does.
\<close>

record cached_feed =
  feed_channel :: channel
  feed_etag :: "string option"
  feed_lastFetched :: timestamp

type_synonym feed_cache = "url \<rightharpoonup> cached_feed"

type_synonym date_parser = "string \<Rightarrow> timestamp option"

datatype cond_header = IfNoneMatch string | IfModifiedSince timestamp | NoCondition

record response =
  status :: nat
  resp_etag :: "string option"
  resp_body :: document

type_synonym network = "url \<Rightarrow> cond_header \<Rightarrow> response option"

datatype fetch_error = TransportError | ParseError rss_error

record fetch_state =
  feedCache :: feed_cache
  requests :: "(url \<times> cond_header) list"

subsection \<open>The post differ\<close>

text \<open>\<open>new Date(item.pubDate).getTime()\<close>: a missing key is \<open>new Date(undefined)\<close>, \<open>NaN\<close>.\<close>

definition item_pubDate :: "date_parser \<Rightarrow> item \<Rightarrow> timestamp option" where
  "item_pubDate pd it = (case it ''pubDate'' of Some s \<Rightarrow> pd s | None \<Rightarrow> None)"

definition item_post :: "item \<Rightarrow> timestamp \<Rightarrow> post" where
  "item_post it t = \<lparr>title = it ''title'', link = it ''link'',
     description = it ''description'', pubDate = t, hashtags = None\<rparr>"

text \<open>
  The loop of \<open>getNewPosts\<close>: an item is kept iff its date is a number greater than the
  watermark (\<open>NaN > x\<close> is false, so an undated item is never kept).
\<close>

fun collectPosts :: "date_parser \<Rightarrow> timestamp \<Rightarrow> item list \<Rightarrow> post list" where
  "collectPosts pd lf [] = []"
| "collectPosts pd lf (it # its) =
     (case item_pubDate pd it of
        Some t \<Rightarrow> (if lf < t then item_post it t # collectPosts pd lf its
                  else collectPosts pd lf its)
      | None \<Rightarrow> collectPosts pd lf its)"

text \<open>\<open>posts.sort((a, b) => b.pubDate - a.pubDate)\<close>: stable, newest first.\<close>

definition sortPosts :: "post list \<Rightarrow> post list" where
  "sortPosts ps = sort_key (\<lambda>p. - pubDate p) ps"

definition getNewPosts :: "date_parser \<Rightarrow> cached_feed \<Rightarrow> subscription \<Rightarrow> post list" where
  "getNewPosts pd feed sub =
     (let ps = sortPosts (collectPosts pd (lastFetched sub) (channel_items (feed_channel feed)))
      in if lastFetched sub = 0 then take (postsToLoadOnNewSub defaultSettings) ps else ps)"

subsection \<open>The fetcher\<close>

text \<open>
  The conditional header: \<open>if (sub.etag)\<close> tests JavaScript truthiness, so an empty
  entity tag counts as absent; \<open>else if (sub.lastFetched)\<close> is false for 0.
\<close>

definition modifiedSince :: "subscription \<Rightarrow> cond_header" where
  "modifiedSince sub = (if lastFetched sub \<noteq> 0 then IfModifiedSince (lastFetched sub) else NoCondition)"

definition cacheHeaders :: "subscription \<Rightarrow> cond_header" where
  "cacheHeaders sub =
     (case etag sub of
        Some e \<Rightarrow> (if e \<noteq> [] then IfNoneMatch e else modifiedSince sub)
      | None \<Rightarrow> modifiedSince sub)"

text \<open>
  The common tail of \<open>fetchSubscriptionUpdates\<close> (cache hit or fresh feed): diff, then
  mutate the subscription's watermark and entity tag, then build the update.
\<close>

definition applyFeed :: "date_parser \<Rightarrow> cached_feed \<Rightarrow> subscription \<Rightarrow> Update" where
  "applyFeed pd feed sub =
     (let ps = getNewPosts pd feed sub;
          sub' = sub\<lparr>lastFetched := feed_lastFetched feed, etag := feed_etag feed\<rparr>
      in \<lparr>subscription = sub', feedTitle = channel_title (feed_channel feed), posts = ps\<rparr>)"

definition notModified :: "subscription \<Rightarrow> Update" where
  "notModified sub = \<lparr>subscription = sub, feedTitle = Some [], posts = []\<rparr>"

datatype pending = Cached cached_feed | Requested cond_header

definition fsu_begin :: "feed_cache \<Rightarrow> subscription \<Rightarrow> pending" where
  "fsu_begin c sub =
     (case c (url sub) of Some feed \<Rightarrow> Cached feed | None \<Rightarrow> Requested (cacheHeaders sub))"

definition fsu_resume ::
  "date_parser \<Rightarrow> network \<Rightarrow> timestamp \<Rightarrow> subscription \<Rightarrow> cond_header
     \<Rightarrow> (fetch_error + Update) \<times> cached_feed option" where
  "fsu_resume pd net now sub h =
     (case net (url sub) h of
        None \<Rightarrow> (Inl TransportError, None)
      | Some resp \<Rightarrow>
          (if status resp = 304 then (Inr (notModified sub), None)
           else (case parseRSS (resp_body resp) of
                   Inl e \<Rightarrow> (Inl (ParseError e), None)
                 | Inr ch \<Rightarrow>
                     (let feed = \<lparr>feed_channel = ch, feed_etag = resp_etag resp,
                                  feed_lastFetched = now\<rparr>
                      in (Inr (applyFeed pd feed sub), Some feed)))))"

definition store_feed :: "url \<Rightarrow> cached_feed option \<Rightarrow> feed_cache \<Rightarrow> feed_cache" where
  "store_feed u e c = (case e of Some f \<Rightarrow> c(u \<mapsto> f) | None \<Rightarrow> c)"

definition fetchSubscriptionUpdates ::
  "date_parser \<Rightarrow> network \<Rightarrow> timestamp \<Rightarrow> subscription \<Rightarrow> fetch_state
     \<Rightarrow> (fetch_error + Update) \<times> fetch_state" where
  "fetchSubscriptionUpdates pd net now sub st =
     (case fsu_begin (feedCache st) sub of
        Cached feed \<Rightarrow> (Inr (applyFeed pd feed sub), st)
      | Requested h \<Rightarrow>
          (let (r, e) = fsu_resume pd net now sub h
           in (r, st\<lparr>feedCache := store_feed (url sub) e (feedCache st),
                     requests := requests st @ [(url sub, h)]\<rparr>)))"

subsection \<open>Batches\<close>

text \<open>
  A sequence of calls, each awaited before the next starts (the \<open>i\<close>-th call reads
  \<open>Date.now()\<close> as \<open>clk i\<close>).
\<close>

fun fetch_seq ::
  "date_parser \<Rightarrow> network \<Rightarrow> (nat \<Rightarrow> timestamp) \<Rightarrow> nat \<Rightarrow> subscription list \<Rightarrow> fetch_state
     \<Rightarrow> (fetch_error + Update) list \<times> fetch_state" where
  "fetch_seq pd net clk i [] st = ([], st)"
| "fetch_seq pd net clk i (sub # subs) st =
     (let (r, st') = fetchSubscriptionUpdates pd net (clk i) sub st;
          (rs, st'') = fetch_seq pd net clk (Suc i) subs st'
      in (r # rs, st''))"

text \<open>
  \<open>Promise.all(subscriptions.map(fetchSubscriptionUpdates))\<close>: \<open>map\<close> runs every
  synchronous prefix, all against the cache as it is when the batch starts; then the
  continuations run, here in list order, each storing its feed.
\<close>

fun batch_resume ::
  "date_parser \<Rightarrow> network \<Rightarrow> (nat \<Rightarrow> timestamp) \<Rightarrow> nat \<Rightarrow> (subscription \<times> pending) list
     \<Rightarrow> feed_cache \<Rightarrow> (fetch_error + Update) list \<times> feed_cache" where
  "batch_resume pd net clk i [] c = ([], c)"
| "batch_resume pd net clk i ((sub, Cached feed) # ps) c =
     (let (rs, c') = batch_resume pd net clk (Suc i) ps c
      in (Inr (applyFeed pd feed sub) # rs, c'))"
| "batch_resume pd net clk i ((sub, Requested h) # ps) c =
     (let (r, e) = fsu_resume pd net (clk i) sub h;
          (rs, c') = batch_resume pd net clk (Suc i) ps (store_feed (url sub) e c)
      in (r # rs, c'))"

fun issued :: "(subscription \<times> pending) list \<Rightarrow> (url \<times> cond_header) list" where
  "issued [] = []"
| "issued ((sub, Cached feed) # ps) = issued ps"
| "issued ((sub, Requested h) # ps) = (url sub, h) # issued ps"

definition fetch_batch ::
  "date_parser \<Rightarrow> network \<Rightarrow> (nat \<Rightarrow> timestamp) \<Rightarrow> subscription list \<Rightarrow> fetch_state
     \<Rightarrow> (fetch_error + Update) list \<times> fetch_state" where
  "fetch_batch pd net clk subs st =
     (let ps = zip subs (map (fsu_begin (feedCache st)) subs);
          (rs, c') = batch_resume pd net clk 0 ps (feedCache st)
      in (rs, st\<lparr>feedCache := c', requests := requests st @ issued ps\<rparr>))"

text \<open>
  \<open>Promise.all\<close> rejects with the first rejection (in this schedule, the first error
  in list order); otherwise \<open>fetchUpdates\<close> keeps the updates that have posts. The
  effects of the other calls happen either way.
\<close>

fun all_settled_ok :: "('e + 'a) list \<Rightarrow> 'e + 'a list" where
  "all_settled_ok [] = Inr []"
| "all_settled_ok (Inl e # rs) = Inl e"
| "all_settled_ok (Inr a # rs) = (case all_settled_ok rs of Inl e \<Rightarrow> Inl e | Inr as \<Rightarrow> Inr (a # as))"

definition fetchUpdates ::
  "date_parser \<Rightarrow> network \<Rightarrow> (nat \<Rightarrow> timestamp) \<Rightarrow> subscription list \<Rightarrow> fetch_state
     \<Rightarrow> (fetch_error + Update list) \<times> fetch_state" where
  "fetchUpdates pd net clk subs st =
     (let (rs, st') = fetch_batch pd net clk subs st
      in (case all_settled_ok rs of
            Inl e \<Rightarrow> Inl e
          | Inr us \<Rightarrow> Inr (filter (\<lambda>u. posts u \<noteq> []) us), st'))"

text \<open>
  A subscription object as a fetch leaves it: only its watermark and entity tag may differ.
\<close>

definition refreshed :: "subscription \<Rightarrow> subscription \<Rightarrow> bool" where
  "refreshed s s' \<longleftrightarrow> s' = s\<lparr>lastFetched := lastFetched s', etag := etag s'\<rparr>"

subsection \<open>Properties of the post differ\<close>

lemma collectPosts_mem:
  "p \<in> set (collectPosts pd lf its) \<longleftrightarrow>
     (\<exists>it\<in>set its. \<exists>t. item_pubDate pd it = Some t \<and> lf < t \<and> p = item_post it t)"
  by (induction its) (auto split: option.splits)

lemma pubDate_item_post [simp]: "pubDate (item_post it t) = t"
  by (simp add: item_post_def)

lemma collectPosts_newer: "p \<in> set (collectPosts pd lf its) \<Longrightarrow> lf < pubDate p"
  by (auto simp: collectPosts_mem)

lemma sortPosts_mset [simp]: "mset (sortPosts ps) = mset ps"
  by (simp add: sortPosts_def)
lemma sortPosts_set [simp]: "set (sortPosts ps) = set ps"
  by (simp add: sortPosts_def)
lemma sortPosts_desc [simp]: "desc_by pubDate (sortPosts ps)"
  by (simp add: sortPosts_def)

abbreviation candidates :: "date_parser \<Rightarrow> cached_feed \<Rightarrow> subscription \<Rightarrow> post list" where
  "candidates pd feed sub \<equiv> collectPosts pd (lastFetched sub) (channel_items (feed_channel feed))"

lemma getNewPosts_first:
  "lastFetched sub = 0 \<Longrightarrow> getNewPosts pd feed sub = take 5 (sortPosts (candidates pd feed sub))"
  by (simp add: getNewPosts_def)
lemma getNewPosts_later:
  "lastFetched sub \<noteq> 0 \<Longrightarrow> getNewPosts pd feed sub = sortPosts (candidates pd feed sub)"
  by (simp add: getNewPosts_def)

lemma getNewPosts_subset: "set (getNewPosts pd feed sub) \<subseteq> set (candidates pd feed sub)"
  by (auto simp: getNewPosts_def Let_def dest: in_set_takeD)

text \<open>The differ keeps only posts strictly newer than the watermark.\<close>

text \<open>C1: Every post getNewPosts returns has a publication date strictly greater than the subscription's watermark lastFetched.\<close>

theorem getNewPosts_newer:
  "p \<in> set (getNewPosts pd feed sub) \<Longrightarrow> lastFetched sub < pubDate p"
  using getNewPosts_subset collectPosts_newer by blast

text \<open>C2: The posts getNewPosts returns are in non-increasing order of publication date (newest first).\<close>

theorem getNewPosts_desc: "desc_by pubDate (getNewPosts pd feed sub)"
  by (simp add: getNewPosts_def Let_def desc_by_take)

text \<open>C3: On a first fetch (lastFetched = 0) getNewPosts returns at most postsToLoadOnNewSub posts, and no candidate post it drops is newer than a post it returns.\<close>

theorem getNewPosts_first_fetch:
  assumes "lastFetched sub = 0"
  shows "length (getNewPosts pd feed sub) \<le> postsToLoadOnNewSub defaultSettings
    \<and> (\<forall>a\<in>set (getNewPosts pd feed sub). \<forall>b\<in>#mset (candidates pd feed sub) - mset (getNewPosts pd feed sub).
          pubDate b \<le> pubDate a)"
proof -
  let ?s = "sortPosts (candidates pd feed sub)"
  have eq: "getNewPosts pd feed sub = take 5 ?s" using assms by (rule getNewPosts_first)
  have "mset (candidates pd feed sub) - mset (take 5 ?s) = mset (drop 5 ?s)"
    by (metis add_diff_cancel_left' append_take_drop_id mset_append sortPosts_mset)
  then show ?thesis
    using eq desc_by_take_drop [OF sortPosts_desc, of _ 5] by auto
qed

text \<open>C4: After the first fetch, getNewPosts equals every list that is a permutation of the candidate posts, sorted newest first, and keeps the input order among posts of equal date: it is the stable descending sort.\<close>

theorem getNewPosts_stable_sort:
  assumes "lastFetched sub \<noteq> 0"
    and "mset ys = mset (candidates pd feed sub)" and "desc_by pubDate ys"
    and "\<And>k. filter (\<lambda>p. pubDate p = k) ys = filter (\<lambda>p. pubDate p = k) (candidates pd feed sub)"
  shows "getNewPosts pd feed sub = ys"
proof -
  have "sort_key (\<lambda>p. - pubDate p) (candidates pd feed sub) = ys"
  proof (rule sort_key_unique)
    show "sorted (map (\<lambda>p. - pubDate p) ys)" using assms(3) by (simp add: desc_by_iff_sorted_neg)
    fix k :: int
    have e: "\<And>xs. filter (\<lambda>p. - pubDate p = k) xs = filter (\<lambda>p. pubDate p = - k) xs"
      by (intro filter_cong) auto
    show "filter (\<lambda>p. - pubDate p = k) ys = filter (\<lambda>p. - pubDate p = k) (candidates pd feed sub)"
      using assms(4) [of "- k"] by (simp only: e)
  qed (use assms(2) in simp)
  with assms(1) show ?thesis by (simp add: getNewPosts_later sortPosts_def)
qed

subsection \<open>Properties of the fetcher\<close>

lemma fsu_begin_hit [simp]: "c (url sub) = Some feed \<Longrightarrow> fsu_begin c sub = Cached feed"
  by (simp add: fsu_begin_def)

lemma fsu_begin_miss [simp]: "c (url sub) = None \<Longrightarrow> fsu_begin c sub = Requested (cacheHeaders sub)"
  by (simp add: fsu_begin_def)

lemma fetchSubscriptionUpdates_miss:
  "feedCache st (url sub) = None \<Longrightarrow>
   fetchSubscriptionUpdates pd net now sub st =
     (fst (fsu_resume pd net now sub (cacheHeaders sub)),
      st\<lparr>feedCache := store_feed (url sub) (snd (fsu_resume pd net now sub (cacheHeaders sub))) (feedCache st),
         requests := requests st @ [(url sub, cacheHeaders sub)]\<rparr>)"
  by (simp add: fetchSubscriptionUpdates_def split_def Let_def)

lemma fetchSubscriptionUpdates_hit:
  "feedCache st (url sub) = Some feed \<Longrightarrow>
   fetchSubscriptionUpdates pd net now sub st = (Inr (applyFeed pd feed sub), st)"
  by (simp add: fetchSubscriptionUpdates_def)

lemma applyFeed_fields [simp]:
  "subscription (applyFeed pd feed sub) = sub\<lparr>lastFetched := feed_lastFetched feed, etag := feed_etag feed\<rparr>"
  "posts (applyFeed pd feed sub) = getNewPosts pd feed sub"
  "feedTitle (applyFeed pd feed sub) = channel_title (feed_channel feed)"
  by (simp_all add: applyFeed_def Let_def)

theorem fetchSubscriptionUpdates_cache_hit:
  assumes "feedCache st (url sub) = Some feed"
    and "fetchSubscriptionUpdates pd net now sub st = (r, st')"
  shows "st' = st \<and> (\<exists>u. r = Inr u \<and> lastFetched (subscription u) = feed_lastFetched feed
           \<and> etag (subscription u) = feed_etag feed \<and> posts u = getNewPosts pd feed sub)"
  using assms by (auto simp: fetchSubscriptionUpdates_hit)

theorem fetchSubscriptionUpdates_not_modified:
  assumes "feedCache st (url sub) = None" and "net (url sub) (cacheHeaders sub) = Some resp"
    and "status resp = 304"
  shows "fetchSubscriptionUpdates pd net now sub st =
     (Inr \<lparr>subscription = sub, feedTitle = Some [], posts = []\<rparr>,
      st\<lparr>requests := requests st @ [(url sub, cacheHeaders sub)]\<rparr>)"
  using assms by (simp add: fetchSubscriptionUpdates_miss fsu_resume_def notModified_def store_feed_def)

lemma fetchSubscriptionUpdates_fresh:
  assumes "feedCache st (url sub) = None" and "net (url sub) (cacheHeaders sub) = Some resp"
    and "status resp \<noteq> 304" and "parseRSS (resp_body resp) = Inr ch"
  shows "fetchSubscriptionUpdates pd net now sub st =
     (let feed = \<lparr>feed_channel = ch, feed_etag = resp_etag resp, feed_lastFetched = now\<rparr>
      in (Inr \<lparr>subscription = sub\<lparr>lastFetched := now, etag := resp_etag resp\<rparr>,
               feedTitle = channel_title ch, posts = getNewPosts pd feed sub\<rparr>,
          st\<lparr>feedCache := (feedCache st)(url sub \<mapsto> feed),
             requests := requests st @ [(url sub, cacheHeaders sub)]\<rparr>))"
  using assms by (simp add: fetchSubscriptionUpdates_miss fsu_resume_def applyFeed_def store_feed_def Let_def)

text \<open>C5: On a cache miss answered with a parseable non-304 response, the updated subscription's lastFetched is the fetch time, its etag is the response's, and the parsed feed is stored in the cache under the URL.\<close>

theorem fetchSubscriptionUpdates_advances:
  assumes "feedCache st (url sub) = None" and "net (url sub) (cacheHeaders sub) = Some resp"
    and "status resp \<noteq> 304" and "parseRSS (resp_body resp) = Inr ch"
    and "fetchSubscriptionUpdates pd net now sub st = (r, st')"
  shows "\<exists>u. r = Inr u \<and> lastFetched (subscription u) = now \<and> etag (subscription u) = resp_etag resp
    \<and> feedCache st' (url sub) = Some \<lparr>feed_channel = ch, feed_etag = resp_etag resp, feed_lastFetched = now\<rparr>
    \<and> requests st' = requests st @ [(url sub, cacheHeaders sub)]"
  using fetchSubscriptionUpdates_fresh [where pd = pd and now = now and net = net and sub = sub, OF assms(1-4)] assms(5)
  by (simp add: Let_def)

text \<open>C6: When fetchSubscriptionUpdates fails, the cache is unchanged (a failure never poisons it), exactly one request was logged, and the error is a transport error exactly when the network rejected.\<close>

theorem fetchSubscriptionUpdates_failure:
  assumes "fetchSubscriptionUpdates pd net now sub st = (Inl err, st')"
  shows "feedCache st' = feedCache st \<and> requests st' = requests st @ [(url sub, cacheHeaders sub)]
    \<and> (err = TransportError \<longleftrightarrow> net (url sub) (cacheHeaders sub) = None)"
proof (cases "feedCache st (url sub)")
  case None
  with assms show ?thesis
    by (auto simp: fetchSubscriptionUpdates_miss fsu_resume_def store_feed_def Let_def
             split: option.splits if_splits sum.splits)
next
  case (Some feed)
  with assms show ?thesis by (simp add: fetchSubscriptionUpdates_hit)
qed

lemma fetch_seq_cached:
  "\<forall>s\<in>set subs. feedCache st (url s) \<noteq> None \<Longrightarrow> snd (fetch_seq pd net clk i subs st) = st"
  by (induction subs arbitrary: i) (auto simp: fetchSubscriptionUpdates_hit split_def)

theorem fetch_seq_one_request:
  assumes "\<forall>s\<in>set subs. url s = url sub" and "feedCache st (url sub) = None"
    and "net (url sub) (cacheHeaders sub) = Some resp" and "status resp \<noteq> 304"
    and "parseRSS (resp_body resp) = Inr ch"
  shows "requests (snd (fetch_seq pd net clk i (sub # subs) st)) = requests st @ [(url sub, cacheHeaders sub)]"
proof -
  obtain r st1 where step: "fetchSubscriptionUpdates pd net (clk i) sub st = (r, st1)"
    and c1: "feedCache st1 (url sub) \<noteq> None" and q1: "requests st1 = requests st @ [(url sub, cacheHeaders sub)]"
    using fetchSubscriptionUpdates_fresh [where net = net and sub = sub and now = "clk i" and pd = pd, OF assms(2-5)] by (simp add: Let_def)
  have "snd (fetch_seq pd net clk (Suc i) subs st1) = st1"
    using assms(1) c1 by (intro fetch_seq_cached) simp
  then show ?thesis using step q1 by (simp add: split_def)
qed


lemma issued_begin:
  "issued (zip subs (map (fsu_begin c) subs)) = [(url s, cacheHeaders s). s \<leftarrow> subs, c (url s) = None]"
  by (induction subs) (auto simp: fsu_begin_def split: option.split)

text \<open>C7: A Promise.all batch issues one request for every subscription whose URL misses the cache when the batch starts, including several for a shared URL.\<close>

theorem fetch_batch_requests:
  "requests (snd (fetch_batch pd net clk subs st)) =
     requests st @ [(url s, cacheHeaders s). s \<leftarrow> subs, feedCache st (url s) = None]"
  by (simp add: fetch_batch_def split_def issued_begin Let_def)

subsection \<open>Results of a batch\<close>

lemma refreshed_upd [simp]: "refreshed s (s\<lparr>lastFetched := t, etag := e\<rparr>)"
  by (simp add: refreshed_def)

lemma refreshed_refl [simp]: "refreshed s s"
  by (simp add: refreshed_def)

lemma refreshed_field:
  assumes "refreshed s s'"
  shows "url s' = url s" and "chatId s' = chatId s" and "refreshRate s' = refreshRate s"
proof -
  from assms have eq: "s' = s\<lparr>lastFetched := lastFetched s', etag := etag s'\<rparr>"
    by (simp add: refreshed_def)
  show "url s' = url s" by (subst eq) simp
  show "chatId s' = chatId s" by (subst eq) simp
  show "refreshRate s' = refreshRate s" by (subst eq) simp
qed

lemma fsu_resume_refreshed:
  "fst (fsu_resume pd net now sub h) = Inr u \<Longrightarrow> refreshed sub (subscription u)"
  by (auto simp: fsu_resume_def notModified_def Let_def split: option.splits if_splits sum.splits)

lemma batch_resume_length [simp]:
  "length (fst (batch_resume pd net clk i ps c)) = length ps"
  by (induction pd net clk i ps c rule: batch_resume.induct) (auto simp: Let_def split: prod.split)

lemma batch_resume_refreshed:
  "fst (batch_resume pd net clk i ps c) ! j = Inr u \<Longrightarrow> j < length ps \<Longrightarrow> refreshed (fst (ps ! j)) (subscription u)"
proof (induction pd net clk i ps c arbitrary: j rule: batch_resume.induct)
  case (1 pd net clk i c)
  then show ?case by simp
next
  case (2 pd net clk i sub feed ps c)
  then show ?case by (cases j) (auto simp: split_def Let_def)
next
  case (3 pd net clk i sub h ps c)
  obtain r e where re: "fsu_resume pd net (clk i) sub h = (r, e)" by fastforce
  show ?case
  proof (cases j)
    case 0
    with "3.prems" re have "fst (fsu_resume pd net (clk i) sub h) = Inr u"
      by (simp add: Let_def split_def)
    with 0 show ?thesis by (simp add: fsu_resume_refreshed)
  next
    case (Suc k)
    with "3.prems" re "3.IH" [OF refl re [symmetric], of k] show ?thesis
      by (simp add: Let_def split_def)
  qed
qed

lemma fetch_batch_length [simp]: "length (fst (fetch_batch pd net clk subs st)) = length subs"
  by (simp add: fetch_batch_def split_def Let_def)

lemma fetch_batch_refreshed:
  "fst (fetch_batch pd net clk subs st) ! j = Inr u \<Longrightarrow> j < length subs \<Longrightarrow> refreshed (subs ! j) (subscription u)"
  using batch_resume_refreshed [of pd net clk 0 "zip subs (map (fsu_begin (feedCache st)) subs)" "feedCache st" j u]
  by (simp add: fetch_batch_def split_def Let_def)

lemma batch_resume_all_fail:
  "\<forall>(s, p)\<in>set ps. p = Requested (cacheHeaders s) \<and> net (url s) (cacheHeaders s) = None \<Longrightarrow>
   fst (batch_resume pd net clk i ps c) = replicate (length ps) (Inl TransportError)"
  by (induction pd net clk i ps c rule: batch_resume.induct) (auto simp: Let_def split_def fsu_resume_def)

lemma fetch_batch_all_fail:
  "\<forall>s\<in>set subs. feedCache st (url s) = None \<and> net (url s) (cacheHeaders s) = None \<Longrightarrow>
   fst (fetch_batch pd net clk subs st) = replicate (length subs) (Inl TransportError)"
proof -
  assume H: "\<forall>s\<in>set subs. feedCache st (url s) = None \<and> net (url s) (cacheHeaders s) = None"
  have "\<forall>(s, p)\<in>set (zip subs (map (fsu_begin (feedCache st)) subs)).
          p = Requested (cacheHeaders s) \<and> net (url s) (cacheHeaders s) = None"
    using H by (auto simp: set_zip fsu_begin_def)
  then show ?thesis by (simp add: fetch_batch_def split_def Let_def batch_resume_all_fail)
qed

text \<open>C26: While the feed cache holds a subscription's URL, fetchSubscriptionUpdates gives the same result and state whatever the network answers and whatever the clock says.\<close>

theorem cached_feed_never_refreshed:
  "feedCache st (url sub) = Some feed \<Longrightarrow>
   fetchSubscriptionUpdates pd net now sub st = fetchSubscriptionUpdates pd net' now' sub st"
  by (simp add: fetchSubscriptionUpdates_hit)

text \<open>C27: While the feed cache holds a subscription's URL, a successful fetchSubscriptionUpdates sets the subscription's watermark to the cached feed's lastFetched, so a cache entry older than the stored watermark lowers it (the witness lowers 100 to 5).\<close>

theorem watermark_from_cache:
  "feedCache st (url sub) = Some f \<Longrightarrow> fetchSubscriptionUpdates pd net now sub st = (Inr up, st') \<Longrightarrow>
   lastFetched (subscription up) = feed_lastFetched f"
  by (auto simp: fetchSubscriptionUpdates_hit applyFeed_def Let_def)

end
