(* ===== verification/Store.thy ===== *)
theory Store
  imports Model
begin

text \<open>
  \<open>UserStore\<close> of \<open>src/store.ts\<close>. The Cloudflare KV namespace holds one JSON value per
  key \<open>user:<id>\<close>; since the key is the decimal id behind a fixed prefix it is modelled
  as a map from user id to user. \<open>set\<close> writes under the id of the user it is given,
  \<open>get\<close> reads a key. Each method is one function from the store to the new store,
  with the source's thrown errors as \<open>Inl\<close>. The interface \<open>store_op\<close> lists the
  methods that change the store; \<open>store_step\<close> dispatches them.
\<close>

type_synonym kv = "int \<rightharpoonup> user"

datatype store_error = AlreadySubscribed | NotSubscribed | UserNotFound

definition store_set :: "kv \<Rightarrow> user \<Rightarrow> kv" where
  "store_set db u = db(uid u \<mapsto> u)"

definition store_get :: "kv \<Rightarrow> int \<Rightarrow> user option" where
  "store_get db i = db i"

text \<open>\<open>await this.get(userId) || newUser(userId)\<close>\<close>

definition get_or_new :: "kv \<Rightarrow> int \<Rightarrow> user" where
  "get_or_new db i = (case store_get db i of Some u \<Rightarrow> u | None \<Rightarrow> newUser i)"

definition addUser :: "kv \<Rightarrow> int \<Rightarrow> kv" where
  "addUser db i = store_set db (newUser i)"

definition addSubscription :: "kv \<Rightarrow> int \<Rightarrow> int \<Rightarrow> url \<Rightarrow> store_error + kv" where
  "addSubscription db userId c u =
     (let user = get_or_new db userId
      in if find (\<lambda>s. url s = u) (subscriptions user) \<noteq> None then Inl AlreadySubscribed
         else Inr (store_set db (user\<lparr>subscriptions := subscriptions user @ [newSubscription c u]\<rparr>)))"

definition deleteSubscription :: "kv \<Rightarrow> int \<Rightarrow> url \<Rightarrow> store_error + kv" where
  "deleteSubscription db userId u =
     (let user = get_or_new db userId
      in if find (\<lambda>s. url s = u) (subscriptions user) = None then Inl NotSubscribed
         else Inr (store_set db (user\<lparr>subscriptions := filter (\<lambda>s. url s \<noteq> u) (subscriptions user)\<rparr>)))"

definition deleteAllSubscriptionsInChat :: "kv \<Rightarrow> int \<Rightarrow> int \<Rightarrow> kv" where
  "deleteAllSubscriptionsInChat db userId c =
     (let user = get_or_new db userId
      in store_set db (user\<lparr>subscriptions := filter (\<lambda>s. chatId s \<noteq> c) (subscriptions user)\<rparr>))"

definition getChatSubscriptions :: "kv \<Rightarrow> int \<Rightarrow> int \<Rightarrow> store_error + subscription list" where
  "getChatSubscriptions db userId c =
     (case store_get db userId of
        None \<Rightarrow> Inl UserNotFound
      | Some user \<Rightarrow> Inr (filter (\<lambda>s. chatId s = c) (subscriptions user)))"

text \<open>
  Merge-back: every subscription of the user object given is replaced by the first
  updated subscription with the same URL; the whole object is then written.
\<close>

definition updateSubscriptions :: "kv \<Rightarrow> user \<Rightarrow> subscription list \<Rightarrow> kv" where
  "updateSubscriptions db user upd =
     store_set db (user\<lparr>subscriptions := replace_by_key url upd (subscriptions user)\<rparr>)"

datatype store_op =
    AddUser int
  | AddSubscription int int url
  | DeleteSubscription int url
  | DeleteAllSubscriptionsInChat int int
  | UpdateSubscriptions user "subscription list"

fun store_step :: "kv \<Rightarrow> store_op \<Rightarrow> store_error + kv" where
  "store_step db (AddUser i) = Inr (addUser db i)"
| "store_step db (AddSubscription i c u) = addSubscription db i c u"
| "store_step db (DeleteSubscription i u) = deleteSubscription db i u"
| "store_step db (DeleteAllSubscriptionsInChat i c) = Inr (deleteAllSubscriptionsInChat db i c)"
| "store_step db (UpdateSubscriptions user upd) = Inr (updateSubscriptions db user upd)"

text \<open>A sequence of store operations; a rejected operation leaves the store as it was.\<close>

fun store_run :: "kv \<Rightarrow> store_op list \<Rightarrow> kv" where
  "store_run db [] = db"
| "store_run db (op # ops) = (case store_step db op of Inl e \<Rightarrow> store_run db ops | Inr db' \<Rightarrow> store_run db' ops)"

subsection \<open>The store invariant\<close>

text \<open>
  Every stored user sits under its own id, and its subscriptions have pairwise distinct
  URLs (the guard of \<open>addSubscription\<close>; the merge-back and the bot rely on it).
\<close>

definition user_ok :: "user \<Rightarrow> bool" where
  "user_ok u \<longleftrightarrow> distinct (map url (subscriptions u))"

definition store_inv :: "kv \<Rightarrow> bool" where
  "store_inv db \<longleftrightarrow> (\<forall>i u. db i = Some u \<longrightarrow> uid u = i \<and> user_ok u)"

text \<open>The precondition of an operation: a merge-back writes a user that satisfies \<open>user_ok\<close>.\<close>

fun op_pre :: "store_op \<Rightarrow> bool" where
  "op_pre (UpdateSubscriptions user upd) = user_ok user"
| "op_pre _ = True"

lemma store_inv_set:
  "store_inv db \<Longrightarrow> user_ok u \<Longrightarrow> store_inv (store_set db u)"
  by (simp add: store_inv_def store_set_def)

lemma get_or_new_uid: "store_inv db \<Longrightarrow> uid (get_or_new db i) = i"
  by (auto simp: get_or_new_def store_get_def store_inv_def split: option.split)

lemma get_or_new_ok: "store_inv db \<Longrightarrow> user_ok (get_or_new db i)"
  by (auto simp: get_or_new_def store_get_def store_inv_def user_ok_def newUser_def
           split: option.split)

lemma user_ok_filter: "user_ok u \<Longrightarrow> user_ok (u\<lparr>subscriptions := filter P (subscriptions u)\<rparr>)"
  by (simp add: user_ok_def distinct_map_filter)

lemmas store_inv_intros = store_inv_set get_or_new_ok user_ok_filter

lemma addSubscription_inv:
  assumes "store_inv db" and "addSubscription db i c u = Inr db'"
  shows "store_inv db'"
proof -
  let ?user = "get_or_new db i"
  from assms(2) have none: "find (\<lambda>s. url s = u) (subscriptions ?user) = None"
    and db': "db' = store_set db (?user\<lparr>subscriptions := subscriptions ?user @ [newSubscription c u]\<rparr>)"
    by (auto simp: addSubscription_def Let_def split: if_splits)
  from none have "u \<notin> set (map url (subscriptions ?user))"
    by (auto simp: find_None_iff)
  with get_or_new_ok [OF assms(1)] have "user_ok (?user\<lparr>subscriptions := subscriptions ?user @ [newSubscription c u]\<rparr>)"
    by (simp add: user_ok_def)
  with assms(1) db' show ?thesis by (simp add: store_inv_set)
qed

lemma deleteSubscription_inv:
  "store_inv db \<Longrightarrow> deleteSubscription db i u = Inr db' \<Longrightarrow> store_inv db'"
  by (auto simp: deleteSubscription_def Let_def store_inv_intros split: if_splits)

lemma deleteAllSubscriptionsInChat_inv:
  "store_inv db \<Longrightarrow> store_inv (deleteAllSubscriptionsInChat db i c)"
  by (simp add: deleteAllSubscriptionsInChat_def Let_def store_inv_intros)

lemma updateSubscriptions_inv:
  "store_inv db \<Longrightarrow> user_ok user \<Longrightarrow> store_inv (updateSubscriptions db user upd)"
  by (simp add: updateSubscriptions_def store_inv_set user_ok_def)

lemma addUser_inv: "store_inv db \<Longrightarrow> store_inv (addUser db i)"
  by (simp add: addUser_def store_inv_set user_ok_def newUser_def)

lemma store_step_inv:
  assumes "store_inv db" and "op_pre op" and "store_step db op = Inr db'"
  shows "store_inv db'"
  using assms
proof (cases op)
  case (AddSubscription i c u)
  with assms show ?thesis by (simp add: addSubscription_inv)
next
  case (DeleteSubscription i u)
  with assms show ?thesis by (simp add: deleteSubscription_inv)
qed (auto simp: addUser_inv deleteAllSubscriptionsInChat_inv updateSubscriptions_inv)

lemma store_inv_empty: "store_inv Map.empty"
  by (simp add: store_inv_def)

text \<open>C8: Every store reached from one satisfying the invariant (users under their own id, subscription URLs distinct per user) by store operations satisfies it.\<close>

theorem store_run_inv:
  "store_inv db \<Longrightarrow> list_all op_pre ops \<Longrightarrow> store_inv (store_run db ops)"
proof (induction ops arbitrary: db)
  case Nil
  then show ?case by simp
next
  case (Cons op ops)
  then show ?case
    by (cases "store_step db op") (auto dest: store_step_inv)
qed

theorem updateSubscriptions_idem:
  "updateSubscriptions (updateSubscriptions db user upd) (user\<lparr>subscriptions := replace_by_key url upd (subscriptions user)\<rparr>) upd
   = updateSubscriptions db user upd"
  by (simp add: updateSubscriptions_def store_set_def replace_by_key_idem)

theorem addSubscription_duplicate:
  "store_get db i = Some user \<Longrightarrow> s \<in> set (subscriptions user) \<Longrightarrow>
   addSubscription db i c (url s) = Inl AlreadySubscribed"
  by (auto simp: addSubscription_def get_or_new_def find_None_iff)

theorem addSubscription_new:
  assumes "store_inv db" and "\<forall>s\<in>set (subscriptions (get_or_new db i)). url s \<noteq> u"
  shows "addSubscription db i c u = Inr (db(i \<mapsto> (get_or_new db i)\<lparr>subscriptions := subscriptions (get_or_new db i) @ [newSubscription c u]\<rparr>))"
  using assms by (auto simp: addSubscription_def store_set_def get_or_new_uid find_None_iff Let_def)

theorem deleteSubscription_removes:
  assumes "store_inv db" and "deleteSubscription db i u = Inr db'"
  shows "\<exists>user. db' i = Some user \<and> url ` set (subscriptions user) = url ` set (subscriptions (get_or_new db i)) - {u}"
  using assms by (auto simp: deleteSubscription_def store_set_def get_or_new_uid Let_def split: if_splits)

end
