(* ===== verification/Bot.thy ===== *)
theory Bot
  imports Updater Store
begin

text \<open>
  The fan-out of \<open>src/bot.ts\<close>: \<open>Bot.updateUserSubscriptions\<close> and the command
  \<open>Bot.fetch\<close> that calls it for one chat.

  The TypeScript code passes subscription \<^emph>\<open>objects\<close> around: the user record
  parsed from the store holds them, \<open>fetchSubscriptionUpdates\<close> mutates them in place
  and returns them inside the update, and the merge-back \<open>UserStore.updateSubscriptions\<close>
  compares and copies references before \<open>set\<close> serialises the user. The model makes
  this explicit: a heap of subscription objects (a list, references are indices), a
  user object whose subscriptions are references (\<open>user_obj\<close>), \<open>load_user\<close> for the
  JSON parse that allocates fresh objects and \<open>serialize\<close> for the JSON write.

  Per subscription the closure awaits \<open>fetchSubscriptionUpdates\<close> (the
  \<open>Promise.allSettled\<close> batch of \<open>Updater.fetch_batch\<close>); a successful update writes its
  subscription back into the object (the in-place mutation; for a 304 the object is
  unchanged); its posts are then each handed to a delivery closure, whose outcome is
  swallowed by the inner \<open>Promise.allSettled\<close>, so the state records only the attempt
  (chat, feed title, post). Rejected closures are dropped by the \<open>reduce\<close>.
\<close>

type_synonym sref = nat

type_synonym heap = "subscription list"

record user_obj =
  obj_uid :: int
  obj_subs :: "sref list"
  obj_defaultRefreshRate :: "int option"
  obj_postsToLoadOnNewSub :: "int option"

record bot_state =
  db :: kv
  fetcher :: fetch_state
  sent :: "(int \<times> string option \<times> post) list"

definition load_user :: "user \<Rightarrow> user_obj \<times> heap" where
  "load_user u =
     (\<lparr>obj_uid = uid u, obj_subs = [0..<length (subscriptions u)],
       obj_defaultRefreshRate = user_defaultRefreshRate u,
       obj_postsToLoadOnNewSub = user_postsToLoadOnNewSub u\<rparr>, subscriptions u)"

definition serialize :: "heap \<Rightarrow> user_obj \<Rightarrow> user" where
  "serialize h uo =
     \<lparr>uid = obj_uid uo, subscriptions = map (\<lambda>r. h ! r) (obj_subs uo),
      user_defaultRefreshRate = obj_defaultRefreshRate uo,
      user_postsToLoadOnNewSub = obj_postsToLoadOnNewSub uo\<rparr>"

text \<open>\<open>if (chatId) subscriptions = subscriptions.filter(sub => sub.chatId === chatId)\<close>\<close>

definition select_subs :: "heap \<Rightarrow> int option \<Rightarrow> sref list \<Rightarrow> sref list" where
  "select_subs h chat rs =
     (case chat of
        Some c \<Rightarrow> (if c \<noteq> 0 then filter (\<lambda>r. chatId (h ! r) = c) rs else rs)
      | None \<Rightarrow> rs)"

text \<open>The in-place mutation of each fetched subscription object.\<close>

fun mutate :: "heap \<Rightarrow> (sref \<times> (fetch_error + Update)) list \<Rightarrow> heap" where
  "mutate h [] = h"
| "mutate h ((r, Inr u) # outs) = mutate (h[r := subscription u]) outs"
| "mutate h ((r, Inl e) # outs) = mutate h outs"

text \<open>One delivery attempt per post of every fulfilled update, to the subscription's chat.\<close>

fun deliveries :: "heap \<Rightarrow> (sref \<times> (fetch_error + Update)) list \<Rightarrow> (int \<times> string option \<times> post) list" where
  "deliveries h [] = []"
| "deliveries h ((r, Inr u) # outs) =
     map (\<lambda>p. (chatId (h ! r), feedTitle u, p)) (posts u) @ deliveries h outs"
| "deliveries h ((r, Inl e) # outs) = deliveries h outs"

text \<open>
  \<open>updates.filter(update => update.posts.length > 0).map(update => update.subscription)\<close>:
  the references of the fulfilled updates that carry posts.
\<close>

fun updated_refs :: "(sref \<times> (fetch_error + Update)) list \<Rightarrow> sref list" where
  "updated_refs [] = []"
| "updated_refs ((r, Inr u) # outs) = (if posts u \<noteq> [] then r # updated_refs outs else updated_refs outs)"
| "updated_refs ((r, Inl e) # outs) = updated_refs outs"

text \<open>
  \<open>UserStore.updateSubscriptions\<close> on objects: the user object's references are replaced
  by the first updated reference whose object has the same URL, then the user is written.
\<close>

definition updateSubscriptions_obj :: "kv \<Rightarrow> heap \<Rightarrow> user_obj \<Rightarrow> sref list \<Rightarrow> kv" where
  "updateSubscriptions_obj d h uo upd =
     store_set d (serialize h (uo\<lparr>obj_subs := replace_by_key (\<lambda>r. url (h ! r)) upd (obj_subs uo)\<rparr>))"

definition updateUserSubscriptions ::
  "date_parser \<Rightarrow> network \<Rightarrow> (nat \<Rightarrow> timestamp) \<Rightarrow> int option \<Rightarrow> user_obj \<times> heap
     \<Rightarrow> bot_state \<Rightarrow> bot_state" where
  "updateUserSubscriptions pd net clk chat uh bs =
     (let (uo, h) = uh;
          refs = select_subs h chat (obj_subs uo);
          (rs, fs) = fetch_batch pd net clk (map (\<lambda>r. h ! r) refs) (fetcher bs);
          outs = zip refs rs;
          h' = mutate h outs
      in bs\<lparr>db := updateSubscriptions_obj (db bs) h' uo (updated_refs outs),
            fetcher := fs, sent := sent bs @ deliveries h' outs\<rparr>)"

text \<open>
  What a run leaves of one subscription (the mutated object for a fulfilled update, the
  untouched object for a rejected one), and the delivery attempts one update makes.
\<close>

definition outcome_sub :: "subscription \<Rightarrow> (fetch_error + Update) \<Rightarrow> subscription" where
  "outcome_sub s r = (case r of Inr up \<Rightarrow> subscription up | Inl e \<Rightarrow> s)"

definition attempts :: "subscription \<Rightarrow> (fetch_error + Update) \<Rightarrow> (int \<times> string option \<times> post) list" where
  "attempts s r = (case r of Inr up \<Rightarrow> map (\<lambda>p. (chatId s, feedTitle up, p)) (posts up) | Inl e \<Rightarrow> [])"

text \<open>
  \<open>Bot.fetch\<close>: the user is read from the store (a fresh parse), a missing user is the
  error \<open>User not found.\<close>, and the chat's subscriptions are updated.
\<close>

definition bot_fetch ::
  "date_parser \<Rightarrow> network \<Rightarrow> (nat \<Rightarrow> timestamp) \<Rightarrow> int \<Rightarrow> int \<Rightarrow> bot_state
     \<Rightarrow> store_error + bot_state" where
  "bot_fetch pd net clk userId chat bs =
     (case store_get (db bs) userId of
        None \<Rightarrow> Inl UserNotFound
      | Some u \<Rightarrow> Inr (updateUserSubscriptions pd net clk (Some chat) (load_user u) bs))"

subsection \<open>The object heap\<close>

lemma length_mutate [simp]: "length (mutate h outs) = length h"
  by (induction h outs rule: mutate.induct) simp_all

lemma mutate_Cons:
  "r < length h \<Longrightarrow> mutate h ((r, x) # outs) = mutate (h[r := outcome_sub (h ! r) x]) outs"
  by (cases x) (simp_all add: outcome_sub_def)

lemma mutate_nth:
  "distinct (map fst outs) \<Longrightarrow> \<forall>r\<in>fst ` set outs. r < length h \<Longrightarrow> j < length h \<Longrightarrow>
   mutate h outs ! j = (case map_of outs j of Some res \<Rightarrow> outcome_sub (h ! j) res | None \<Rightarrow> h ! j)"
proof (induction outs arbitrary: h)
  case (Cons ob outs)
  obtain r x where ob: "ob = (r, x)" by fastforce
  with Cons.prems have r: "r < length h" and fresh: "map_of outs r = None"
    by (auto simp: map_of_eq_None_iff)
  with Cons ob show ?case
    by (cases "j = r") (simp_all add: mutate_Cons nth_list_update split: option.split)
qed simp

lemma mutate_all:
  assumes "length rs = length h"
  shows "mutate h (zip [0..<length h] rs) = map2 outcome_sub h rs"
proof (rule nth_equalityI)
  fix j assume j: "j < length (mutate h (zip [0..<length h] rs))"
  then have "map_of (zip [0..<length h] rs) j = Some (rs ! j)"
    using assms map_of_zip_nth [of "[0..<length h]" rs j] by simp
  moreover have "\<forall>r\<in>fst ` set (zip [0..<length h] rs). r < length h"
    by (auto dest!: set_zip_leftD)
  ultimately show "mutate h (zip [0..<length h] rs) ! j = map2 outcome_sub h rs ! j"
    using j assms by (simp add: mutate_nth)
qed (simp add: assms)

lemma deliveries_zip:
  "length rs = length ixs \<Longrightarrow> deliveries h (zip ixs rs) = concat (map2 (\<lambda>i r. attempts (h ! i) r) ixs rs)"
proof (induction ixs arbitrary: rs)
  case Nil
  then show ?case by simp
next
  case (Cons i ixs)
  then obtain r rs' where "rs = r # rs'" by (cases rs) auto
  with Cons show ?case by (cases r) (auto simp: attempts_def)
qed

lemma outcome_refreshed:
  assumes "i < length subs"
  shows "refreshed (subs ! i) (outcome_sub (subs ! i) (fst (fetch_batch pd net clk subs st) ! i))"
  using fetch_batch_refreshed [of pd net clk subs st i] assms
  by (auto simp: outcome_sub_def split: sum.split)

lemma updated_refs_subset: "set (updated_refs outs) \<subseteq> fst ` set outs"
  by (induction outs rule: updated_refs.induct) auto

lemma select_all [simp]: "select_subs h None rs = rs"
  by (simp add: select_subs_def)

lemma batch_outcomes:
  assumes "rs = fst (fetch_batch pd net clk subs st)"
  shows "length (map2 outcome_sub subs rs) = length subs"
    and "map url (map2 outcome_sub subs rs) = map url subs"
    and "map chatId (map2 outcome_sub subs rs) = map chatId subs"
proof -
  have len: "length rs = length subs" by (simp add: assms)
  have fresh: "refreshed (subs ! i) (map2 outcome_sub subs rs ! i)" if "i < length subs" for i
    using that outcome_refreshed [of i subs pd net clk st] len by (simp add: assms)
  show "length (map2 outcome_sub subs rs) = length subs" by (simp add: len)
  show "map url (map2 outcome_sub subs rs) = map url subs"
    by (rule nth_equalityI) (use len fresh in \<open>simp_all add: refreshed_field(1)\<close>)
  show "map chatId (map2 outcome_sub subs rs) = map chatId subs"
    by (rule nth_equalityI) (use len fresh in \<open>simp_all add: refreshed_field(2)\<close>)
qed

lemma updated_refs_bound: "set (updated_refs (zip [0..<n] rs)) \<subseteq> {0..<n}"
proof -
  have "fst ` set (zip [0..<n] rs) \<subseteq> {0..<n}" by (auto dest!: set_zip_leftD)
  with updated_refs_subset show ?thesis by blast
qed

lemma merge_identity:
  assumes "distinct (map k h)" and "set upd \<subseteq> {0..<length h}"
  shows "replace_by_key (\<lambda>r. k (h ! r)) upd [0..<length h] = [0..<length h]"
proof (rule replace_by_key_inj)
  have "inj_on (\<lambda>r. map k h ! r) {0..<length h}" using assms(1) by (intro inj_on_nth) auto
  then have "inj_on (\<lambda>r. k (h ! r)) {0..<length h}" by (auto simp: inj_on_def)
  with assms(2) show "inj_on (\<lambda>r. k (h ! r)) (set [0..<length h] \<union> set upd)"
    by (auto intro: inj_on_subset)
qed

lemma deliveries_all:
  assumes "length rs = length h" and "map chatId h' = map chatId h"
  shows "deliveries h' (zip [0..<length h] rs) = concat (map2 attempts h rs)"
proof -
  have "map2 (\<lambda>i r. attempts (h' ! i) r) [0..<length h] rs = map2 attempts h rs"
  proof (rule nth_equalityI)
    fix i assume i: "i < length (map2 (\<lambda>i r. attempts (h' ! i) r) [0..<length h] rs)"
    have l: "length h' = length h" using map_eq_imp_length_eq [OF assms(2)] .
    have "map chatId h' ! i = map chatId h ! i" using assms(2) by simp
    with i assms(1) l have "chatId (h' ! i) = chatId (h ! i)" by simp
    with i assms(1) show "map2 (\<lambda>i r. attempts (h' ! i) r) [0..<length h] rs ! i = map2 attempts h rs ! i"
      by (simp add: attempts_def)
  qed (simp add: assms)
  with assms(1) show ?thesis by (simp add: deliveries_zip)
qed

lemma serialize_load:
  "length h' = length (subscriptions u) \<Longrightarrow>
   serialize h' ((fst (load_user u))\<lparr>obj_subs := [0..<length (subscriptions u)]\<rparr>) = u\<lparr>subscriptions := h'\<rparr>"
  using map_nth [of h'] by (cases u) (simp add: serialize_def load_user_def)

lemma updateUserSubscriptions_all:
  fixes subs rs
  assumes ok: "user_ok u"
    and subs_def: "subs = subscriptions u"
    and rs_def: "rs = fst (fetch_batch pd net clk subs (fetcher bs))"
  shows "updateUserSubscriptions pd net clk None (load_user u) bs =
     bs\<lparr>db := (db bs)(uid u \<mapsto> u\<lparr>subscriptions := map2 outcome_sub subs rs\<rparr>),
        fetcher := snd (fetch_batch pd net clk subs (fetcher bs)),
        sent := sent bs @ concat (map2 attempts subs rs)\<rparr>"
proof -
  let ?n = "length subs"
  let ?h' = "map2 outcome_sub subs rs"
  note out = batch_outcomes [OF rs_def]
  have len: "length rs = ?n" by (simp add: rs_def)
  have h': "mutate subs (zip [0..<?n] rs) = ?h'" using len by (rule mutate_all)
  have "distinct (map url ?h')" using ok out(2) by (simp add: user_ok_def subs_def)
  then have rk: "replace_by_key (\<lambda>r. url (?h' ! r)) (updated_refs (zip [0..<?n] rs)) [0..<?n] = [0..<?n]"
    using merge_identity [of url ?h' "updated_refs (zip [0..<?n] rs)"] updated_refs_bound out(1) by simp
  have del: "deliveries ?h' (zip [0..<?n] rs) = concat (map2 attempts subs rs)"
    using len out(3) by (rule deliveries_all)
  obtain fs where fb: "fetch_batch pd net clk subs (fetcher bs) = (rs, fs)"
    by (metis prod.collapse rs_def)
  show ?thesis
    using fb h' rk del serialize_load [of ?h' u] out(1)
    by (simp add: updateUserSubscriptions_def updateSubscriptions_obj_def store_set_def Let_def
        load_user_def subs_def map_nth)
qed

lemma attempts_from:
  "a \<in> set (concat (map2 attempts xs rs)) \<Longrightarrow>
   \<exists>up. Inr up \<in> set rs \<and> fst (snd a) = feedTitle up \<and> snd (snd a) \<in> set (posts up)"
  by (auto simp: attempts_def dest!: set_zip_rightD split: sum.splits)

lemma mutate_urls:
  assumes "distinct (map fst outs)"
    and "\<forall>(r, x) \<in> set outs. r < length h \<and> (\<forall>up. x = Inr up \<longrightarrow> url (subscription up) = url (h ! r))"
  shows "map url (mutate h outs) = map url h"
  using assms
proof (induction outs arbitrary: h)
  case (Cons ob outs)
  obtain r x where ob: "ob = (r, x)" by fastforce
  have d: "distinct (map fst outs)" and ne: "\<forall>(r', x') \<in> set outs. r' \<noteq> r"
    using Cons.prems(1) ob by force+
  have p: "\<forall>(r', x') \<in> set outs. r' < length h \<and> (\<forall>up. x' = Inr up \<longrightarrow> url (subscription up) = url (h ! r'))"
    using Cons.prems(2) by simp
  show ?case
  proof (cases x)
    case (Inl e)
    with Cons.IH [OF d p] ob show ?thesis by simp
  next
    case (Inr up)
    let ?h = "h[r := subscription up]"
    have r: "r < length h" and u: "url (subscription up) = url (h ! r)" using Cons.prems(2) ob Inr by auto
    have "(map url h)[r := url (h ! r)] = map url h" using r list_update_id [of "map url h" r] by simp
    then have same: "map url ?h = map url h" using u by (simp add: map_update)
    have "\<forall>(r', x') \<in> set outs. r' < length ?h \<and> (\<forall>up. x' = Inr up \<longrightarrow> url (subscription up) = url (?h ! r'))"
    proof (clarify)
      fix r' x' assume "(r', x') \<in> set outs"
      with p ne have "r' \<noteq> r" "r' < length h" "\<forall>up. x' = Inr up \<longrightarrow> url (subscription up) = url (h ! r')" by auto
      then show "r' < length ?h \<and> (\<forall>up. x' = Inr up \<longrightarrow> url (subscription up) = url (?h ! r'))" by simp
    qed
    then have "map url (mutate ?h outs) = map url ?h" using Cons.IH d by blast
    with same ob Inr show ?thesis by simp
  qed
qed simp

lemma serialize_urls:
  "map url (subscriptions (serialize h (uo\<lparr>obj_subs := replace_by_key (\<lambda>r. url (h ! r)) upd rs\<rparr>)))
     = map (\<lambda>r. url (h ! r)) rs"
  using replace_by_key_keys [of "\<lambda>r. url (h ! r)" upd rs] by (simp add: serialize_def comp_def)

lemma select_subs_sub: "set (select_subs h chat rs) \<subseteq> set rs" "distinct rs \<Longrightarrow> distinct (select_subs h chat rs)"
  by (auto simp: select_subs_def split: option.split)

lemma updateUserSubscriptions_record:
  "\<exists>u'. db (updateUserSubscriptions pd net clk chat (load_user u) bs) = (db bs)(uid u \<mapsto> u')
     \<and> uid u' = uid u \<and> map url (subscriptions u') = map url (subscriptions u)"
proof -
  let ?h = "subscriptions u"
  let ?refs = "select_subs ?h chat [0..<length ?h]"
  obtain rs fs where fb: "fetch_batch pd net clk (map (\<lambda>r. ?h ! r) ?refs) (fetcher bs) = (rs, fs)"
    by (cases "fetch_batch pd net clk (map (\<lambda>r. ?h ! r) ?refs) (fetcher bs)") auto
  let ?outs = "zip ?refs rs"
  have len: "length rs = length ?refs" using fetch_batch_length [of pd net clk "map (\<lambda>r. ?h ! r) ?refs" "fetcher bs"] fb by simp
  have dist: "distinct (map fst ?outs)" using len select_subs_sub(2) [of "[0..<length ?h]" ?h chat] by simp
  have "\<forall>(r, x) \<in> set ?outs. r < length ?h \<and> (\<forall>up. x = Inr up \<longrightarrow> url (subscription up) = url (?h ! r))"
  proof (clarify)
    fix r x assume rx: "(r, x) \<in> set ?outs"
    then obtain i where i: "i < length ?refs" "r = ?refs ! i" "x = rs ! i" using len by (auto simp: set_zip)
    have "?refs ! i \<in> set ?refs" by (rule nth_mem [OF i(1)])
    then have "?refs ! i \<in> set [0..<length ?h]" using select_subs_sub(1) [of ?h chat "[0..<length ?h]"] by blast
    then have "r < length ?h" using i(2) by simp
    moreover have "url (subscription up) = url (?h ! r)" if "x = Inr up" for up
      using fetch_batch_refreshed [of pd net clk "map (\<lambda>r. ?h ! r) ?refs" "fetcher bs" i] fb i that
      by (auto simp: refreshed_field(1))
    ultimately show "r < length ?h \<and> (\<forall>up. x = Inr up \<longrightarrow> url (subscription up) = url (?h ! r))" by blast
  qed
  then have mu: "map url (mutate ?h ?outs) = map url ?h" by (rule mutate_urls [OF dist])
  let ?H = "mutate ?h ?outs"
  let ?uo = "(fst (load_user u))\<lparr>obj_subs := replace_by_key (\<lambda>r. url (?H ! r)) (updated_refs ?outs) [0..<length ?h]\<rparr>"
  have db: "db (updateUserSubscriptions pd net clk chat (load_user u) bs) = (db bs)(uid u \<mapsto> serialize ?H ?uo)"
    using fb by (simp add: updateUserSubscriptions_def updateSubscriptions_obj_def store_set_def Let_def
        load_user_def serialize_def)
  have "map (\<lambda>r. url (?H ! r)) [0..<length ?h] = map url ?H"
    by (rule nth_equalityI) simp_all
  then have "map url (subscriptions (serialize ?H ?uo)) = map url ?h"
    using mu serialize_urls [where h = ?H and uo = "fst (load_user u)" and upd = "updated_refs ?outs" and rs = "[0..<length ?h]"] by simp
  moreover have "uid (serialize ?H ?uo) = uid u" by (simp add: serialize_def load_user_def)
  ultimately show ?thesis using db by blast
qed

subsection \<open>Properties of the fan-out\<close>

lemma outcomes_all_fail [simp]:
  "map2 outcome_sub xs (replicate (length xs) (Inl e)) = xs"
  "concat (map2 attempts xs (replicate (length xs) (Inl e))) = []"
  by (induction xs) (simp_all add: outcome_sub_def attempts_def)

lemma stored_user:
  "user_ok u \<Longrightarrow> db (updateUserSubscriptions pd net clk None (load_user u) bs) (uid u) =
     Some (u\<lparr>subscriptions := map2 outcome_sub (subscriptions u) (fst (fetch_batch pd net clk (subscriptions u) (fetcher bs)))\<rparr>)"
  by (simp add: updateUserSubscriptions_all [OF _ refl refl])

text \<open>C11: After updateUserSubscriptions, every subscription whose fetch was fulfilled is stored as the update's subscription (advanced watermark and entity tag), whether or not the update had posts and whatever the deliveries did.\<close>

theorem updateUserSubscriptions_advances:
  assumes "user_ok u" and "i < length (subscriptions u)"
    and "fst (fetch_batch pd net clk (subscriptions u) (fetcher bs)) ! i = Inr up"
  shows "\<exists>u'. db (updateUserSubscriptions pd net clk None (load_user u) bs) (uid u) = Some u'
           \<and> subscriptions u' ! i = subscription up"
  using assms by (simp add: stored_user outcome_sub_def)

text \<open>C12: After updateUserSubscriptions, a subscription whose fetch failed is stored unchanged (its watermark is kept, so it is retried), while the others are updated.\<close>

theorem updateUserSubscriptions_failure_isolated:
  assumes "user_ok u" and "i < length (subscriptions u)"
    and "fst (fetch_batch pd net clk (subscriptions u) (fetcher bs)) ! i = Inl e"
  shows "\<exists>u'. db (updateUserSubscriptions pd net clk None (load_user u) bs) (uid u) = Some u'
           \<and> subscriptions u' ! i = subscriptions u ! i"
  using assms by (simp add: stored_user outcome_sub_def)

text \<open>C13: updateUserSubscriptions attempts one delivery per post of every fulfilled update, to the subscription's chat with the feed title, in order, and none for a failed fetch.\<close>

theorem updateUserSubscriptions_delivers:
  "user_ok u \<Longrightarrow> sent (updateUserSubscriptions pd net clk None (load_user u) bs) =
     sent bs @ concat (map2 attempts (subscriptions u) (fst (fetch_batch pd net clk (subscriptions u) (fetcher bs))))"
  by (simp add: updateUserSubscriptions_all [OF _ refl refl])

end
