(* ===== verification/Render.thy ===== *)
theory Render
  imports Model
begin

text \<open>
  \<open>renderPost\<close> and \<open>escapeTg\<close> of \<open>src/render.ts\<close>. Characters are Isabelle's
  8-bit characters, the code units below 256 of a JavaScript string.

  \<open>escapeTg\<close> is \<open>text.replace(/[_*\[\]()~`>#+\-=|{}.!]/g, '\\$&')\<close>: each character of
  the class gets a backslash in front. Applied to \<open>undefined\<close> (a post or feed without
  title or link) it throws a \<open>TypeError\<close>, which is \<open>Inl TypeError\<close> of \<open>renderPost\<close>.

  The date line is \<open>new Date(post.pubDate).toISOString().slice(0, 16).replace('T', ' ')\<close>.
  \<open>toISOString\<close> is a library function; it is modelled after ECMA-262 (\<open>DayFromYear\<close>,
  \<open>YearFromTime\<close> as the largest year starting no later than the day,
  \<open>MonthFromTime\<close>, \<open>DateFromTime\<close>, floor division, the extended six-digit year
  outside 0..9999, and the \<open>RangeError\<close> for a time value beyond 8.64e15 ms).

  The text is sent with \<open>parse_mode: 'MarkdownV2'\<close>. What Telegram reads from it is
  modelled by \<open>md_lex\<close>: a backslash makes the next character a literal, every other
  character stands for itself; an unescaped reserved character is markup (or, outside
  an entity, an error).
\<close>

datatype render_error = TypeError | RangeError

definition bsl :: char where "bsl = CHR 0x5C"

definition nl :: char where "nl = CHR 0x0A"

definition tg_reserved :: string where
  "tg_reserved = ''_*[]()~`>#+-=|{}.!''"

definition escapeTg :: "string \<Rightarrow> string" where
  "escapeTg s = concat (map (\<lambda>c. if c \<in> set tg_reserved then [bsl, c] else [c]) s)"

fun join_str :: "string \<Rightarrow> string list \<Rightarrow> string" where
  "join_str sep [] = []"
| "join_str sep [x] = x"
| "join_str sep (x # xs) = x @ sep @ join_str sep xs"

subsection \<open>Dates (ECMA-262, 21.4.1)\<close>

definition msPerDay :: int where "msPerDay = 86400000"

definition day_from_year :: "int \<Rightarrow> int" where
  "day_from_year y = 365 * (y - 1970) + (y - 1969) div 4 - (y - 1901) div 100 + (y - 1601) div 400"

definition in_leap_year :: "int \<Rightarrow> bool" where
  "in_leap_year y \<longleftrightarrow> y mod 4 = 0 \<and> (y mod 100 \<noteq> 0 \<or> y mod 400 = 0)"

text \<open>
  \<open>YearFromTime\<close>: the largest year whose first day is not after day \<open>d\<close>, searched
  downwards from the year after \<open>1970 + d div 365\<close> (or \<open>d div 366\<close>); the fuel is the
  length of that interval, which contains the year (lemma \<open>year_from_day_bounds\<close>).
\<close>

fun year_search :: "int \<Rightarrow> int \<Rightarrow> nat \<Rightarrow> int" where
  "year_search d y 0 = y"
| "year_search d y (Suc n) = (if day_from_year y \<le> d then y else year_search d (y - 1) n)"

definition year_lo :: "int \<Rightarrow> int" where
  "year_lo d = 1970 + min (d div 365) (d div 366)"

definition year_hi :: "int \<Rightarrow> int" where
  "year_hi d = 1970 + max (d div 365) (d div 366)"

definition year_from_day :: "int \<Rightarrow> int" where
  "year_from_day d = year_search d (year_hi d) (nat (year_hi d - year_lo d))"

definition month_starts :: "int \<Rightarrow> int list" where
  "month_starts y = (let l = (if in_leap_year y then 1 else 0) in
     [0, 31, 59 + l, 90 + l, 120 + l, 151 + l, 181 + l, 212 + l, 243 + l, 273 + l, 304 + l, 334 + l])"

definition dec_digit :: "nat \<Rightarrow> char" where
  "dec_digit k = char_of (48 + k)"

fun dec_digits :: "nat \<Rightarrow> string" where
  "dec_digits n = (if n < 10 then [dec_digit n] else dec_digits (n div 10) @ [dec_digit (n mod 10)])"

definition pad :: "nat \<Rightarrow> int \<Rightarrow> string" where
  "pad w n = (let ds = dec_digits (nat n) in replicate (w - length ds) (CHR ''0'') @ ds)"

definition iso_year :: "int \<Rightarrow> string" where
  "iso_year y = (if 0 \<le> y \<and> y \<le> 9999 then pad 4 y else (if y < 0 then ''-'' else ''+'') @ pad 6 \<bar>y\<bar>)"

text \<open>\<open>Date.prototype.toISOString\<close>: \<open>YYYY-MM-DDTHH:mm:ss.sssZ\<close>.\<close>

definition iso_string :: "int \<Rightarrow> string" where
  "iso_string t =
     (let d = t div msPerDay; y = year_from_day d; dwy = d - day_from_year y;
          ms = month_starts y; m = length (filter (\<lambda>s. s \<le> dwy) (tl ms));
          date = dwy - ms ! m + 1
      in iso_year y @ ''-'' @ pad 2 (int m + 1) @ ''-'' @ pad 2 date @ ''T''
         @ pad 2 ((t div 3600000) mod 24) @ '':'' @ pad 2 ((t div 60000) mod 60) @ '':''
         @ pad 2 ((t div 1000) mod 60) @ ''.'' @ pad 3 (t mod 1000) @ ''Z'')"

definition toISOString :: "int \<Rightarrow> render_error + string" where
  "toISOString t = (if \<bar>t\<bar> > 8640000000000000 then Inl RangeError else Inr (iso_string t))"

text \<open>\<open>String.prototype.replace\<close> with a string pattern: the first occurrence only.\<close>

fun replace_first :: "char \<Rightarrow> char \<Rightarrow> string \<Rightarrow> string" where
  "replace_first a b [] = []"
| "replace_first a b (c # cs) = (if c = a then b # cs else c # replace_first a b cs)"

subsection \<open>Rendering\<close>

definition render_hashtags :: "string list option \<Rightarrow> string" where
  "render_hashtags hs = (case hs of Some ts \<Rightarrow> ''#'' @ join_str '' #'' (map escapeTg ts) @ [nl] | None \<Rightarrow> [])"

definition renderPost :: "post \<Rightarrow> string option \<Rightarrow> render_error + string" where
  "renderPost p ftitle =
     (case (ftitle, title p, link p) of
        (Some ft, Some t, Some l) \<Rightarrow>
          (let formattedMessage = ''*'' @ escapeTg ft @ '': '' @ escapeTg t @ ''*'' @ [nl] @ escapeTg l @ [nl]
           in case toISOString (pubDate p) of
                Inl e \<Rightarrow> Inl e
              | Inr isoStr \<Rightarrow> Inr (formattedMessage @ render_hashtags (hashtags p)
                                 @ escapeTg (replace_first (CHR ''T'') (CHR '' '') (take 16 isoStr))))
      | _ \<Rightarrow> Inl TypeError)"

subsection \<open>What Telegram reads\<close>

fun md_lex :: "string \<Rightarrow> (bool \<times> char) list" where
  "md_lex [] = []"
| "md_lex (c # cs) =
     (if c = bsl then (case cs of [] \<Rightarrow> [(False, c)] | d # ds \<Rightarrow> (True, d) # md_lex ds)
      else (False, c) # md_lex cs)"

definition markup :: "string \<Rightarrow> string" where
  "markup s = map snd (filter (\<lambda>(e, c). \<not> e \<and> c \<in> set tg_reserved) (md_lex s))"

text \<open>The text Telegram displays: the literal characters, markup characters removed.\<close>

definition md_text :: "string \<Rightarrow> string" where
  "md_text s = map snd (filter (\<lambda>(e, c). e \<or> c \<notin> set tg_reserved) (md_lex s))"

subsection \<open>Calendar lemmas\<close>

lemma div_Suc_int:
  fixes x n :: int assumes "0 < n"
  shows "(x + 1) div n = x div n + (if (x + 1) mod n = 0 then 1 else 0)"
proof (cases "x mod n + 1 = n")
  case True
  have e: "x + 1 = n * (x div n + 1) + 0"
  proof -
    have "x + 1 = n * (x div n) + (x mod n + 1)" by simp
    with True show ?thesis by (simp add: distrib_left)
  qed
  have "(x + 1) div n = x div n + 1" by (rule int_div_pos_eq [OF e]) (use assms in simp_all)
  moreover have "(x + 1) mod n = 0" by (subst e) simp
  ultimately show ?thesis by simp
next
  case False
  have r: "x mod n + 1 < n" using False assms pos_mod_bound [of n x] by linarith
  have e: "x + 1 = n * (x div n) + (x mod n + 1)" by simp
  have "(x + 1) div n = x div n" by (rule int_div_pos_eq [OF e]) (use assms r in \<open>simp_all add: pos_mod_sign\<close>)
  moreover have "(x + 1) mod n = x mod n + 1"
  proof -
    have "(x + 1) mod n = (x mod n + 1) mod n" by (simp add: mod_add_left_eq)
    also have "\<dots> = x mod n + 1" by (rule mod_pos_pos_trivial) (use assms r in simp_all)
    finally show ?thesis .
  qed
  moreover have "0 \<le> x mod n" using assms by simp
  ultimately show ?thesis by simp
qed

lemma mod_shift: "(y - (k * n :: int)) mod n = y mod n"
  using mod_mult_self1 [of y "- k" n] by (simp add: algebra_simps)

lemma day_from_year_Suc:
  "day_from_year (y + 1) = day_from_year y + (if in_leap_year y then 366 else 365)"
proof -
  have a: "(y + 1 - 1969) div 4 = (y - 1969) div 4 + (if y mod 4 = 0 then 1 else 0)"
    using div_Suc_int [of 4 "y - 1969"] mod_shift [of y 492 4] by (simp add: algebra_simps)
  have b: "(y + 1 - 1901) div 100 = (y - 1901) div 100 + (if y mod 100 = 0 then 1 else 0)"
    using div_Suc_int [of 100 "y - 1901"] mod_shift [of y 19 100] by (simp add: algebra_simps)
  have c: "(y + 1 - 1601) div 400 = (y - 1601) div 400 + (if y mod 400 = 0 then 1 else 0)"
    using div_Suc_int [of 400 "y - 1601"] mod_shift [of y 4 400] by (simp add: algebra_simps)
  have d: "y mod 400 = 0 \<Longrightarrow> y mod 100 = 0" "y mod 100 = 0 \<Longrightarrow> y mod 4 = 0"
    using dvd_trans [of "100::int" 400 y] dvd_trans [of "4::int" 100 y] by (auto simp: mod_eq_0_iff_dvd)
  have e: "day_from_year (y + 1) - day_from_year y
      = 365 + (if y mod 4 = 0 then 1 else 0) - (if y mod 100 = 0 then 1 else 0) + (if y mod 400 = 0 then 1 else 0)"
    unfolding day_from_year_def a b c by (simp add: algebra_simps)
  show ?thesis
    unfolding in_leap_year_def
    by (cases "y mod 4 = 0"; cases "y mod 100 = 0"; cases "y mod 400 = 0") (use e d in auto)
qed


lemma day_from_year_1970 [simp]: "day_from_year 1970 = 0"
  by (simp add: day_from_year_def)

lemma day_from_year_up: "365 * int n \<le> day_from_year (1970 + int n) \<and> day_from_year (1970 + int n) \<le> 366 * int n"
proof (induction n)
  case (Suc n)
  then show ?case using day_from_year_Suc [of "1970 + int n"] by (simp add: add.assoc)
qed simp

lemma day_from_year_down: "- 366 * int n \<le> day_from_year (1970 - int n) \<and> day_from_year (1970 - int n) \<le> - 365 * int n"
proof (induction n)
  case (Suc n)
  then show ?case using day_from_year_Suc [of "1970 - int (Suc n)"]
    by (cases "in_leap_year (1969 - int n)") simp_all
qed simp

lemma year_search_correct:
  "\<not> day_from_year (y + 1) \<le> d \<Longrightarrow> day_from_year (y - int n) \<le> d \<Longrightarrow>
   day_from_year (year_search d y n) \<le> d \<and> d < day_from_year (year_search d y n + 1)"
proof (induction n arbitrary: y)
  case (Suc n)
  then show ?case by (auto simp: algebra_simps)
qed simp

lemma year_from_day_bounds:
  "day_from_year (year_lo d) \<le> d" "d < day_from_year (year_hi d + 1)"
proof -
  have q5: "365 * (d div 365) \<le> d" "d < 365 * (d div 365) + 365" by simp_all
  have q6: "366 * (d div 366) \<le> d" "d < 366 * (d div 366) + 366" by simp_all
  show "day_from_year (year_lo d) \<le> d"
  proof (cases "0 \<le> d")
    case True
    then have "0 \<le> d div 366" "d div 366 \<le> d div 365" by (simp_all add: zdiv_mono2)
    then show ?thesis using day_from_year_up [of "nat (d div 366)"] q6 by (simp add: year_lo_def)
  next
    case False
    then have "d div 365 < 0" "d div 365 \<le> d div 366" by (simp_all add: zdiv_mono2_neg)
    then show ?thesis using day_from_year_down [of "nat (- (d div 365))"] q5 by (simp add: year_lo_def)
  qed
  show "d < day_from_year (year_hi d + 1)"
  proof (cases "0 \<le> d")
    case True
    then have "0 \<le> d div 365" "d div 366 \<le> d div 365" by (simp_all add: zdiv_mono2)
    then show ?thesis using day_from_year_up [of "nat (d div 365 + 1)"] q5 by (simp add: year_hi_def add.assoc)
  next
    case False
    then have "d div 366 < 0" "d div 365 \<le> d div 366" by (simp_all add: zdiv_mono2_neg)
    then show ?thesis using day_from_year_down [of "nat (- (d div 366 + 1))"] q6 by (simp add: year_hi_def)
  qed
qed

lemma year_from_day_correct:
  "day_from_year (year_from_day d) \<le> d \<and> d < day_from_year (year_from_day d + 1)"
proof -
  have "year_lo d \<le> year_hi d" by (simp add: year_lo_def year_hi_def)
  then have "year_hi d - int (nat (year_hi d - year_lo d)) = year_lo d" by simp
  then show ?thesis unfolding year_from_day_def
    using year_search_correct [of "year_hi d" d "nat (year_hi d - year_lo d)"] year_from_day_bounds [of d]
    by simp
qed

lemma day_from_year_mono: "day_from_year y < day_from_year (y + 1 + int k)"
proof (induction k)
  case 0
  then show ?case using day_from_year_Suc [of y] by simp
next
  case (Suc k)
  then show ?case using day_from_year_Suc [of "y + 1 + int k"] by (simp add: add.assoc)
qed

lemma day_from_year_less: "y < y' \<Longrightarrow> day_from_year y < day_from_year y'"
  using day_from_year_mono [of y "nat (y' - y - 1)"] by simp

lemma day_from_year_le: "y \<le> y' \<Longrightarrow> day_from_year y \<le> day_from_year y'"
  using day_from_year_less [of y y'] by (cases "y = y'") auto

lemma year_from_day_unique:
  assumes "day_from_year y \<le> d" "d < day_from_year (y + 1)"
  shows "year_from_day d = y"
proof (rule ccontr)
  assume "year_from_day d \<noteq> y"
  then consider "year_from_day d + 1 \<le> y" | "y + 1 \<le> year_from_day d" by linarith
  then show False
  proof cases
    case 1
    with year_from_day_correct [of d] assms show False using day_from_year_le by fastforce
  next
    case 2
    with year_from_day_correct [of d] assms show False using day_from_year_le by fastforce
  qed
qed

subsection \<open>Lexing escaped text\<close>

lemma md_lex_escapeTg_append:
  "bsl \<notin> set s \<Longrightarrow> md_lex (escapeTg s @ r) = map (\<lambda>c. (c \<in> set tg_reserved, c)) s @ md_lex r"
  by (induction s) (auto simp: escapeTg_def)

lemma bsl_not_reserved [simp]: "bsl \<notin> set tg_reserved"
  by (simp add: bsl_def tg_reserved_def)

lemma dec_digit_not_bsl:
  assumes "k < 10" shows "dec_digit k \<noteq> bsl"
proof
  assume "dec_digit k = bsl"
  then have "of_char (dec_digit k) = (of_char bsl :: nat)" by simp
  with assms show False by (simp add: dec_digit_def bsl_def of_char_of)
qed

lemma bsl_dec_digits: "bsl \<notin> set (dec_digits n)"
proof (induction n rule: dec_digits.induct)
  case (1 n)
  have "n mod 10 < 10" by simp
  then show ?case using 1 dec_digit_not_bsl [of n] dec_digit_not_bsl [of "n mod 10"]
    by (subst dec_digits.simps) (auto simp del: dec_digits.simps)
qed

lemma bsl_pad: "bsl \<notin> set (pad w n)"
  using bsl_dec_digits [of "nat n"] by (auto simp: pad_def Let_def bsl_def simp del: dec_digits.simps)

lemma bsl_iso_string: "bsl \<notin> set (iso_string t)"
proof -
  have "bsl \<notin> set ''-+TZ:.''" by (simp add: bsl_def)
  then show ?thesis unfolding iso_string_def iso_year_def Let_def
    by (simp add: bsl_pad del: dec_digits.simps)
qed

lemma bsl_replace_first: "bsl \<notin> set s \<Longrightarrow> b \<noteq> bsl \<Longrightarrow> bsl \<notin> set (replace_first a b s)"
  by (induction s) auto

lemma bsl_date_line: "bsl \<notin> set (replace_first (CHR ''T'') (CHR '' '') (take 16 (iso_string t)))"
  using bsl_iso_string [of t] by (intro bsl_replace_first) (auto simp: bsl_def dest: in_set_takeD)

lemma filter_lit:
  "filter (\<lambda>(e, c). \<not> e \<and> c \<in> set tg_reserved) (map (\<lambda>c. (c \<in> set tg_reserved, c)) s) = []"
  "map snd (filter (\<lambda>(e, c). e \<or> c \<notin> set tg_reserved) (map (\<lambda>c. (c \<in> set tg_reserved, c)) s)) = s"
  by (induction s) auto

lemma escapeTg_append: "escapeTg (a @ b) = escapeTg a @ escapeTg b"
  by (simp add: escapeTg_def)

lemma escapeTg_bsl_star: "escapeTg (bsl # CHR ''*'' # y) = bsl # bsl # CHR ''*'' # escapeTg y"
proof -
  have "CHR ''*'' \<in> set tg_reserved" by (simp add: tg_reserved_def)
  then show ?thesis by (simp add: escapeTg_def)
qed

theorem escapeTg_displays:
  "bsl \<notin> set s \<Longrightarrow> md_text (escapeTg s) = s \<and> markup (escapeTg s) = []"
  using md_lex_escapeTg_append [of s "[]"] by (simp add: markup_def md_text_def filter_lit comp_def)

theorem renderPost_type_error:
  "renderPost p ft = Inl TypeError \<longleftrightarrow> ft = None \<or> title p = None \<or> link p = None"
  by (auto simp: renderPost_def toISOString_def Let_def split: option.splits sum.splits)


text \<open>C34: For any post whose title contains a backslash before an asterisk (feed title, rest of the title and link without backslashes, no hashtags), the text renderPost builds has three unescaped asterisks for Telegram, the title's asterisk ending the bold header, and Telegram displays the backslash and drops that asterisk.\<close>

theorem renderPost_backslash_title:
  assumes r: "renderPost p (Some ft) = Inr m" and t: "title p = Some (x @ bsl # CHR ''*'' # y)"
    and l: "link p = Some lk" and h: "hashtags p = None"
    and bs: "bsl \<notin> set ft" "bsl \<notin> set x" "bsl \<notin> set y" "bsl \<notin> set lk"
  shows "markup m = ''***''
    \<and> md_text m = ft @ '': '' @ x @ [bsl] @ y @ [nl] @ lk @ [nl]
        @ replace_first (CHR ''T'') (CHR '' '') (take 16 (iso_string (pubDate p)))"
proof -
  let ?dl = "replace_first (CHR ''T'') (CHR '' '') (take 16 (iso_string (pubDate p)))"
  let ?L = "map (\<lambda>c. (c \<in> set tg_reserved, c))"
  from r t l h have m: "m = ''*'' @ escapeTg ft @ '': '' @ escapeTg x @ bsl # bsl # CHR ''*'' # escapeTg y
      @ ''*'' @ [nl] @ escapeTg lk @ [nl] @ escapeTg ?dl"
    by (auto simp: renderPost_def toISOString_def render_hashtags_def escapeTg_append escapeTg_bsl_star
             split: if_splits)
  have c: "CHR ''*'' \<noteq> bsl" "CHR '':'' \<noteq> bsl" "CHR '' '' \<noteq> bsl" "nl \<noteq> bsl"
    "CHR ''*'' \<in> set tg_reserved" "CHR '':'' \<notin> set tg_reserved" "CHR '' '' \<notin> set tg_reserved" "nl \<notin> set tg_reserved"
    by (simp_all add: bsl_def nl_def tg_reserved_def)
  have "md_lex m = (False, CHR ''*'') # ?L ft @ [(False, CHR '':''), (False, CHR '' '')]
      @ ?L x @ [(True, bsl), (False, CHR ''*'')] @ ?L y @ [(False, CHR ''*''), (False, nl)]
      @ ?L lk @ [(False, nl)] @ ?L ?dl"
    using bs bsl_date_line [of "pubDate p"] c unfolding m
    by (simp add: md_lex_escapeTg_append md_lex_escapeTg_append [of _ "[]", simplified])
  then show ?thesis using c by (simp add: markup_def md_text_def filter_lit comp_def)
qed

end
