(* ===== verification/Command.thy ===== *)
theory Command
  imports Prelude
begin

text \<open>
  \<open>Command\<close> of \<open>src/bot.ts\<close>: the text of a message is matched against
  \<open>/^\/(\w+)(?:\s+(.+))?$/\<close>; the first group selects the command type, the second
  is the URL argument.
\<close>

datatype CommandType = SUBSCRIBE | UNSUBSCRIBE | UNSUBSCRIBE_ALL | LIST | HELP | FETCH | UNKNOWN

text \<open>The string values of the enum.\<close>

fun cmd_value :: "CommandType \<Rightarrow> string" where
  "cmd_value SUBSCRIBE = ''sub''"
| "cmd_value UNSUBSCRIBE = ''unsub''"
| "cmd_value UNSUBSCRIBE_ALL = ''unsub_all''"
| "cmd_value LIST = ''list''"
| "cmd_value HELP = ''help''"
| "cmd_value FETCH = ''fetch''"
| "cmd_value UNKNOWN = ''unknown''"

definition parseCommandType :: "string \<Rightarrow> CommandType" where
  "parseCommandType s =
     (if s = cmd_value SUBSCRIBE then SUBSCRIBE
      else if s = cmd_value UNSUBSCRIBE then UNSUBSCRIBE
      else if s = cmd_value UNSUBSCRIBE_ALL then UNSUBSCRIBE_ALL
      else if s = cmd_value LIST then LIST
      else if s = cmd_value HELP then HELP
      else if s = cmd_value FETCH then FETCH
      else UNKNOWN)"

subsection \<open>Regular expressions\<close>

text \<open>
  The fragment of ECMAScript regular expressions the source uses, with the backtracking
  semantics of ECMA-262 (22.2.2): a matcher returns every way to match, as end position
  and captures, in the order the backtracking engine tries them, so that the first one
  whose continuation succeeds is the match. A greedy repetition tries one more iteration
  before stopping, and an iteration that consumes nothing fails. Captures map a group
  number to its start and end.
\<close>

datatype rx = RClass "char \<Rightarrow> bool" | RSeq rx rx | ROpt rx | RPlus rx | RGroup nat rx | RBegin | REnd

type_synonym caps = "nat \<rightharpoonup> nat \<times> nat"

function mt :: "string \<Rightarrow> bool \<Rightarrow> rx \<Rightarrow> nat \<Rightarrow> caps \<Rightarrow> (nat \<times> caps) list" where
  "mt s False (RClass P) i c = (if i < length s \<and> P (s ! i) then [(Suc i, c)] else [])"
| "mt s False (RSeq a b) i c = concat (map (\<lambda>(j, c'). mt s False b j c') (mt s False a i c))"
| "mt s False (ROpt a) i c = mt s False a i c @ [(i, c)]"
| "mt s False (RPlus a) i c = concat (map (\<lambda>(j, c'). mt s True a j c') (mt s False a i c))"
| "mt s False (RGroup k a) i c = map (\<lambda>(j, c'). (j, c'(k \<mapsto> (i, j)))) (mt s False a i c)"
| "mt s False RBegin i c = (if i = 0 then [(i, c)] else [])"
| "mt s False REnd i c = (if i = length s then [(i, c)] else [])"
| "mt s True a i c =
     concat (map (\<lambda>(j, c'). if i < j \<and> j \<le> length s then mt s True a j c' else []) (mt s False a i c)) @ [(i, c)]"
  by pat_completeness auto
termination
  by (relation "measures [\<lambda>(s, st, r, i, c). size r, \<lambda>(s, st, r, i, c). if st then 1 else 0,
                           \<lambda>(s, st, r, i, c). length s - i]") auto

text \<open>\<open>RegExp.prototype.exec\<close> without flags: the first match from the first start index.\<close>

definition re_exec :: "rx \<Rightarrow> string \<Rightarrow> caps option" where
  "re_exec r s = (case concat (map (\<lambda>i. mt s False r i Map.empty) [0..<Suc (length s)]) of
                    [] \<Rightarrow> None | (j, c) # _ \<Rightarrow> Some c)"

definition is_word :: "char \<Rightarrow> bool" where
  "is_word c \<longleftrightarrow> c \<in> set ''ABCDEFGHIJKLMNOPQRSTUVWXYZabcdefghijklmnopqrstuvwxyz0123456789_''"

text \<open>\<open>\s\<close> on the code units below 256: tab, line feed, vertical tab, form feed,
  carriage return, space and no-break space.\<close>

definition is_space :: "char \<Rightarrow> bool" where
  "is_space c \<longleftrightarrow> of_char c \<in> {9, 10, 11, 12, 13, 32, 160 :: nat}"

definition is_line_terminator :: "char \<Rightarrow> bool" where
  "is_line_terminator c \<longleftrightarrow> of_char c \<in> {10, 13 :: nat}"

definition commandRegex :: rx where
  "commandRegex =
     RSeq RBegin (RSeq (RClass (\<lambda>c. c = CHR ''/'')) (RSeq (RGroup 1 (RPlus (RClass is_word)))
       (RSeq (ROpt (RSeq (RPlus (RClass is_space)) (RGroup 2 (RPlus (RClass (\<lambda>c. \<not> is_line_terminator c))))))
          REnd)))"

definition substring :: "string \<Rightarrow> nat \<times> nat \<Rightarrow> string" where
  "substring s ij = take (snd ij - fst ij) (drop (fst ij) s)"

text \<open>
  The constructor: on a match the type is parsed from group 1 and the URL is group 2
  (\<open>undefined\<close> when the optional part did not take part); otherwise the type is
  \<open>UNKNOWN\<close> and the URL is never assigned.
\<close>

text \<open>
  A direct reading of the pattern, as a reference: a slash, the longest run of word
  characters (backtracking into it never helps, since the next character must be a
  space), and then the arguments \<open>cmd_args\<close>: either the end (no URL), or the longest
  run of spaces followed by a non-empty rest without line terminators (the URL), or,
  when nothing follows the spaces, the last space alone (the greedy \<open>\s+\<close> gives back
  one character to \<open>.+\<close>). \<open>None\<close> is no match.
\<close>

definition cmd_args :: "string \<Rightarrow> string option option" where
  "cmd_args rest =
     (let ws = takeWhile is_space rest; r = drop (length ws) rest
      in if ws = [] then (if rest = [] then Some None else None)
         else if r \<noteq> [] then (if list_all (\<lambda>x. \<not> is_line_terminator x) r then Some (Some r) else None)
         else if 2 \<le> length ws \<and> \<not> is_line_terminator (last ws) then Some (Some [last ws])
         else None)"

definition command_ref :: "string \<Rightarrow> (string \<times> string option) option" where
  "command_ref s =
     (case s of
        [] \<Rightarrow> None
      | c # t \<Rightarrow>
          (let w = takeWhile is_word t
           in if c \<noteq> CHR ''/'' \<or> w = [] then None else map_option (Pair w) (cmd_args (drop (length w) t))))"

definition Command :: "string \<Rightarrow> CommandType \<times> string option" where
  "Command messageText =
     (case re_exec commandRegex messageText of
        Some c \<Rightarrow> (case c 1 of
                     Some g1 \<Rightarrow> (parseCommandType (substring messageText g1), map_option (substring messageText) (c 2))
                   | None \<Rightarrow> (UNKNOWN, None))
      | None \<Rightarrow> (UNKNOWN, None))"

text \<open>The length of the run of characters satisfying \<open>P\<close> from position \<open>i\<close>.\<close>

definition run :: "(char \<Rightarrow> bool) \<Rightarrow> string \<Rightarrow> nat \<Rightarrow> nat" where
  "run P s i = length (takeWhile P (drop i s))"

abbreviation not_lt :: "char \<Rightarrow> bool" where "not_lt c \<equiv> \<not> is_line_terminator c"

text \<open>The part of \<open>commandRegex\<close> after the command word: \<open>(?:\s+(.+))?$\<close>.\<close>

abbreviation cmd_tail :: rx where
  "cmd_tail \<equiv> RSeq (ROpt (RSeq (RPlus (RClass is_space)) (RGroup 2 (RPlus (RClass not_lt))))) REnd"

subsection \<open>The matcher on the command pattern\<close>

text \<open>The star equation unfolds forever under the simplifier; it is used explicitly.\<close>

lemmas mt_star = mt.simps(8)

declare mt.simps(8) [simp del]

lemma run_step:
  "i < length s \<Longrightarrow> P (s ! i) \<Longrightarrow> run P s i = Suc (run P s (Suc i))"
  by (simp add: run_def Cons_nth_drop_Suc [symmetric])

lemma run_stop: "\<not> (i < length s \<and> P (s ! i)) \<Longrightarrow> run P s i = 0"
  by (cases "i < length s") (auto simp: run_def Cons_nth_drop_Suc [symmetric])

lemma run_bound: "i \<le> length s \<Longrightarrow> i + run P s i \<le> length s"
  unfolding run_def using length_takeWhile_le [of P "drop i s"] by simp

lemma mt_star_class:
  "mt s True (RClass P) i c = map (\<lambda>j. (j, c)) (rev [i..<Suc (i + run P s i)])"
proof (induction "length s - i" arbitrary: i)
  case 0
  then show ?case by (simp add: mt_star run_stop)
next
  case (Suc k)
  show ?case
  proof (cases "P (s ! i)")
    case True
    with Suc.hyps(2) have i: "i < length s" by simp
    with Suc.hyps True show ?thesis
      by (simp add: mt_star run_step upt_rec [of i] rev_map)
  next
    case False
    then show ?thesis by (simp add: mt_star run_stop)
  qed
qed

lemma mt_plus_class:
  "mt s False (RPlus (RClass P)) i c = map (\<lambda>j. (j, c)) (rev [Suc i..<Suc (i + run P s i)])"
proof (cases "i < length s \<and> P (s ! i)")
  case True
  then show ?thesis by (simp add: mt_star_class run_step)
next
  case False
  then show ?thesis by (auto simp: run_stop)
qed

lemma mt_end: "concat (map (\<lambda>(j, c'). mt s False REnd j c') xs) = filter (\<lambda>(j, c'). j = length s) xs"
  by (induction xs) auto

lemma filter_eq_distinct:
  "distinct xs \<Longrightarrow> filter (\<lambda>e. e = n) xs = (if n \<in> set xs then [n] else [])"
  by (induction xs) auto

lemma filter_end_range:
  assumes "k + d \<le> n"
  shows "filter (\<lambda>(e, c'). e = n) (map (\<lambda>e. (e, f e)) (rev [Suc k..<Suc (k + d)]))
       = (if k < n \<and> k + d = n then [(n, f n)] else [])"
proof -
  have "filter (\<lambda>e. e = n) (rev [Suc k..<Suc (k + d)]) = (if k < n \<and> k + d = n then [n] else [])"
    using assms by (subst filter_eq_distinct) auto
  then show ?thesis by (simp add: filter_map comp_def case_prod_beta)
qed

lemma mt_group_end:
  assumes "k \<le> length s"
  shows "filter (\<lambda>(e, c'). e = length s) (mt s False (RGroup 2 (RPlus (RClass not_lt))) k c)
     = (if k < length s \<and> k + run not_lt s k = length s then [(length s, c(2 \<mapsto> (k, length s)))] else [])"
  using filter_end_range [of k "run not_lt s k" "length s" "\<lambda>e. c(2 \<mapsto> (k, e))"] run_bound [OF assms]
  by (simp add: mt_plus_class comp_def del: mt.simps(4))

lemma mt_tail:
  assumes j: "j \<le> length s"
  shows "mt s False (RSeq (ROpt (RSeq (RPlus (RClass is_space)) (RGroup 2 (RPlus (RClass not_lt))))) REnd) j c
   = concat (map (\<lambda>k. if k < length s \<and> k + run not_lt s k = length s then [(length s, c(2 \<mapsto> (k, length s)))] else [])
              (rev [Suc j..<Suc (j + run is_space s j)]))
     @ (if j = length s then [(j, c)] else [])"
proof -
  have b: "j + run is_space s j \<le> length s" using run_bound [OF j] .
  have "filter (\<lambda>(e, c'). e = length s) (mt s False (RGroup 2 (RPlus (RClass not_lt))) k c)
      = (if k < length s \<and> k + run not_lt s k = length s then [(length s, c(2 \<mapsto> (k, length s)))] else [])"
    if "k \<in> set (rev [Suc j..<Suc (j + run is_space s j)])" for k
    using that b by (intro mt_group_end) auto
  then have eq: "concat (map (\<lambda>k. filter (\<lambda>(e, c'). e = length s) (mt s False (RGroup 2 (RPlus (RClass not_lt))) k c))
       (rev [Suc j..<Suc (j + run is_space s j)]))
    = concat (map (\<lambda>k. if k < length s \<and> k + run not_lt s k = length s then [(length s, c(2 \<mapsto> (k, length s)))] else [])
       (rev [Suc j..<Suc (j + run is_space s j)]))"
    by (intro arg_cong [where f = concat] map_cong) auto
  show ?thesis
    by (simp add: mt_end mt_plus_class filter_concat comp_def eq del: mt.simps(4) mt.simps(5) upt_Suc)
qed

lemma run_nth: "k < run P s i \<Longrightarrow> i + k < length s \<and> P (s ! (i + k))"
proof -
  assume k: "k < run P s i"
  then have "takeWhile P (drop i s) ! k = drop i s ! k" by (simp add: run_def takeWhile_nth)
  moreover have "P (takeWhile P (drop i s) ! k)"
    using k nth_mem [of k "takeWhile P (drop i s)"] set_takeWhileD by (fastforce simp: run_def)
  moreover have "k < length (drop i s)" using k length_takeWhile_le [of P "drop i s"] by (simp add: run_def)
  ultimately show ?thesis by simp
qed

lemma length_takeWhile_full: "length (takeWhile P xs) = length xs \<longleftrightarrow> (\<forall>x\<in>set xs. P x)"
  by (induction xs) auto

lemma run_full:
  assumes "i \<le> length s"
  shows "i + run P s i = length s \<longleftrightarrow> (\<forall>x\<in>set (drop i s). P x)"
proof -
  have "i + run P s i = length s \<longleftrightarrow> run P s i = length (drop i s)" using assms by auto
  then show ?thesis by (simp only: run_def length_takeWhile_full)
qed

lemma word_not_space: "is_word c \<Longrightarrow> \<not> is_space c"
  by (auto simp: is_word_def is_space_def)

lemma tail_inner:
  assumes "2 \<le> j" "j < Suc (run is_word s (Suc 0))"
  shows "mt s False cmd_tail j c = []"
proof -
  from assms run_nth [of "j - 1" is_word s 1] have j: "j < length s" "is_word (s ! j)" by simp_all
  then have "run is_space s j = 0" by (simp add: run_stop word_not_space)
  with j show ?thesis by (subst mt_tail) simp_all
qed

lemma mt_group_plus:
  "mt s False (RGroup k (RPlus (RClass P))) i c = map (\<lambda>j. (j, c(k \<mapsto> (i, j)))) (rev [Suc i..<Suc (i + run P s i)])"
  by (simp add: mt_plus_class comp_def del: mt.simps(4))

lemma mt_after_slash:
  "mt s False (RSeq (RGroup (Suc 0) (RPlus (RClass is_word))) cmd_tail) (Suc 0) Map.empty =
     (if 0 < run is_word s (Suc 0) then mt s False cmd_tail (Suc (run is_word s (Suc 0))) [Suc 0 \<mapsto> (Suc 0, Suc (run is_word s (Suc 0)))] else [])"
proof -
  let ?w = "run is_word s (Suc 0)"
  have "mt s False (RSeq (RGroup (Suc 0) (RPlus (RClass is_word))) cmd_tail) (Suc 0) Map.empty
      = concat (map (\<lambda>(j, c'). mt s False cmd_tail j c') (mt s False (RGroup (Suc 0) (RPlus (RClass is_word))) (Suc 0) Map.empty))"
    by (rule mt.simps(2))
  also have "\<dots> = concat (map (\<lambda>j. mt s False cmd_tail j [Suc 0 \<mapsto> (Suc 0, j)]) (rev [Suc (Suc 0)..<Suc (Suc ?w)]))"
    by (simp only: mt_group_plus map_map comp_def prod.case) (simp del: mt.simps)
  also have "\<dots> = (if 0 < ?w then mt s False cmd_tail (Suc ?w) [Suc 0 \<mapsto> (Suc 0, Suc ?w)] else [])"
  proof (cases ?w)
    case (Suc w)
    have "concat (map (\<lambda>j. mt s False cmd_tail j [Suc 0 \<mapsto> (Suc 0, j)]) (rev [Suc (Suc 0)..<Suc (Suc w)])) = []"
      using tail_inner [of _ s] Suc by (auto simp del: mt.simps)
    with Suc show ?thesis by (simp del: mt.simps)
  qed simp
  finally show ?thesis by simp
qed

lemma mt_commandRegex:
  "mt s False commandRegex 0 Map.empty =
     (if s \<noteq> [] \<and> s ! 0 = CHR ''/'' \<and> 0 < run is_word s (Suc 0)
      then mt s False cmd_tail (Suc (run is_word s (Suc 0))) [Suc 0 \<mapsto> (Suc 0, Suc (run is_word s (Suc 0)))] else [])"
proof -
  have "mt s False commandRegex 0 Map.empty
      = mt s False (RSeq (RClass (\<lambda>c. c = CHR ''/'')) (RSeq (RGroup (Suc 0) (RPlus (RClass is_word))) cmd_tail)) 0 Map.empty"
    unfolding commandRegex_def One_nat_def by (subst mt.simps(2)) (simp del: mt.simps(2))
  also have "\<dots> = (if s \<noteq> [] \<and> s ! 0 = CHR ''/''
      then mt s False (RSeq (RGroup (Suc 0) (RPlus (RClass is_word))) cmd_tail) (Suc 0) Map.empty else [])"
    by (subst mt.simps(2)) (simp del: mt.simps(2))
  finally show ?thesis by (simp add: mt_after_slash del: mt.simps(2))
qed

lemma concat_map_Nil: "(\<And>x. x \<in> set xs \<Longrightarrow> f x = []) \<Longrightarrow> concat (map f xs) = []"
  by (induction xs) auto

lemma mt_commandRegex_later: "0 < i \<Longrightarrow> mt s False commandRegex i c = []"
  by (simp add: commandRegex_def)

lemma re_exec_commandRegex:
  "re_exec commandRegex s = (case mt s False commandRegex 0 Map.empty of [] \<Rightarrow> None | (j, c) # _ \<Rightarrow> Some c)"
proof -
  have "concat (map (\<lambda>i. mt s False commandRegex i Map.empty) [Suc 0..<Suc (length s)]) = []"
    by (rule concat_map_Nil, rule mt_commandRegex_later) auto
  moreover have "[0..<Suc (length s)] = 0 # [Suc 0..<Suc (length s)]" by (rule upt_conv_Cons) simp
  ultimately show ?thesis unfolding re_exec_def by (simp only: list.map concat.simps append_Nil2)
qed

lemma F_lower_nil:
  assumes "\<forall>k\<in>set ks. k \<le> m" and "m \<le> length s" and "\<not> (\<forall>x\<in>set (drop m s). not_lt x)"
  shows "concat (map (\<lambda>k. if k < length s \<and> k + run not_lt s k = length s then [g k] else []) ks) = []"
proof -
  have "\<not> (k < length s \<and> k + run not_lt s k = length s)" if "k \<in> set ks" for k
  proof
    assume "k < length s \<and> k + run not_lt s k = length s"
    then have "\<forall>x\<in>set (drop k s). not_lt x" using run_full [of k s] by simp
    moreover have "set (drop m s) \<subseteq> set (drop k s)" using assms(1) that by (simp add: set_drop_subset_set_drop)
    ultimately show False using assms(3) by blast
  qed
  then show ?thesis by fastforce
qed

lemma Command_list:
  "Command s = (case mt s False commandRegex 0 Map.empty of
                  [] \<Rightarrow> (UNKNOWN, None)
                | (j, c) # _ \<Rightarrow> (case c (Suc 0) of
                     Some g1 \<Rightarrow> (parseCommandType (substring s g1), map_option (substring s) (c 2))
                   | None \<Rightarrow> (UNKNOWN, None)))"
  unfolding Command_def re_exec_commandRegex One_nat_def
  by (simp split: list.split del: mt.simps)

lemma substring_drop: "k \<le> length s \<Longrightarrow> substring s (k, length s) = drop k s"
  by (simp add: substring_def)

lemma tail_list:
  assumes "J \<le> length s"
  shows "mt s False cmd_tail J c =
     concat (map (\<lambda>k. if k < length s \<and> k + run not_lt s k = length s then [(length s, c(2 \<mapsto> (k, length s)))] else [])
       (rev [Suc J..<Suc (J + run is_space s J)])) @ (if J = length s then [(J, c)] else [])"
  using assms by (rule mt_tail)

lemma spaces_drop:
  "length (takeWhile is_space (drop J s)) = run is_space s J"
  "drop (length (takeWhile is_space (drop J s))) (drop J s) = drop (J + run is_space s J) s"
  by (simp_all add: run_def add.commute)

lemma tail_first_none:
  assumes "J \<le> length s" "run is_space s J = 0"
  shows "(case mt s False cmd_tail J c of [] \<Rightarrow> None | (j, c') # _ \<Rightarrow> Some (c' (Suc 0), map_option (substring s) (c' 2)))
       = (if drop J s = [] then Some (c (Suc 0), map_option (substring s) (c 2)) else None)"
  using assms by (simp add: tail_list del: mt.simps)

lemma tail_first_rest:
  assumes "J + run is_space s J < length s" "0 < run is_space s J" "c 2 = None"
  shows "(case mt s False cmd_tail J c of [] \<Rightarrow> None | (j, c') # _ \<Rightarrow> Some (c' (Suc 0), map_option (substring s) (c' 2)))
       = map_option (Pair (c (Suc 0))) (cmd_args (drop J s))"
proof -
  let ?m = "J + run is_space s J"
  let ?F = "\<lambda>k. if k < length s \<and> k + run not_lt s k = length s then [(length s, c(2 \<mapsto> (k, length s)))] else []"
  have L: "mt s False cmd_tail J c = ?F ?m @ concat (map ?F (rev [Suc J..<?m]))"
    using assms by (simp add: tail_list del: mt.simps)
  have Q: "?m + run not_lt s ?m = length s \<longleftrightarrow> list_all not_lt (drop ?m s)"
    using run_full [of ?m s not_lt] assms(1) by (simp add: list_all_iff)
  have args: "cmd_args (drop J s) = (if list_all not_lt (drop ?m s) then Some (Some (drop ?m s)) else None)"
    using assms spaces_drop [of J s] by (auto simp: cmd_args_def Let_def)
  show ?thesis
  proof (cases "list_all not_lt (drop ?m s)")
    case True
    then show ?thesis using L Q args assms by (simp add: substring_drop del: mt.simps)
  next
    case False
    have "concat (map ?F (?m # rev [Suc J..<?m])) = []"
      by (rule F_lower_nil) (use False assms in \<open>auto simp: list_all_iff\<close>)
    then have "mt s False cmd_tail J c = []" by (simp only: L concat.simps list.map)
    then show ?thesis using args False by (simp del: mt.simps)
  qed
qed

lemma tail_first_end:
  assumes "J + run is_space s J = length s" "0 < run is_space s J" "c 2 = None"
  shows "(case mt s False cmd_tail J c of [] \<Rightarrow> None | (j, c') # _ \<Rightarrow> Some (c' (Suc 0), map_option (substring s) (c' 2)))
       = map_option (Pair (c (Suc 0))) (cmd_args (drop J s))"
proof -
  let ?n = "length s" and ?sp = "run is_space s J"
  let ?F = "\<lambda>k. if k < ?n \<and> k + run not_lt s k = ?n then [(?n, c(2 \<mapsto> (k, ?n)))] else []"
  have L: "mt s False cmd_tail J c = concat (map ?F (rev [Suc J..<?n]))"
    using assms by (simp add: tail_list del: mt.simps)
  have ws: "takeWhile is_space (drop J s) = drop J s"
    using spaces_drop(1) [of J s] assms(1) takeWhile_eq_take [of is_space "drop J s"] by simp
  show ?thesis
  proof (cases "?sp = 1")
    case True
    then have "rev [Suc J..<?n] = []" using assms(1) by simp
    then have "mt s False cmd_tail J c = []" by (simp only: L list.map concat.simps)
    moreover have "cmd_args (drop J s) = None"
      using spaces_drop [of J s] True assms(1) by (simp add: cmd_args_def Let_def)
    ultimately show ?thesis by (simp del: mt.simps)
  next
    case False
    with assms have e: "?n = Suc (?n - 1)" "Suc J \<le> ?n - 1" by simp_all
    have "rev [Suc J..<Suc (?n - 1)] = (?n - 1) # rev [Suc J..<?n - 1]" using e(2) by simp
    then have top: "rev [Suc J..<?n] = (?n - 1) # rev [Suc J..<?n - 1]" by (metis e(1))
    have dl: "drop (?n - 1) s = [s ! (?n - 1)]"
      using Cons_nth_drop_Suc [of "?n - 1" s] e(1) by simp
    have Q: "?n - 1 + run not_lt s (?n - 1) = ?n \<longleftrightarrow> not_lt (s ! (?n - 1))"
      using run_full [of "?n - 1" s not_lt] dl by simp
    have lst: "last (drop J s) = s ! (?n - 1)" using e by (simp add: last_conv_nth)
    have args: "cmd_args (drop J s) = (if not_lt (s ! (?n - 1)) then Some (Some [s ! (?n - 1)]) else None)"
      unfolding cmd_args_def Let_def ws using lst assms False e by (simp; linarith)
    show ?thesis
    proof (cases "not_lt (s ! (?n - 1))")
      case True
      then show ?thesis using L top Q args dl e assms by (simp add: substring_drop del: mt.simps)
    next
      case nlt: False
      have "concat (map ?F (rev [Suc J..<?n])) = []"
        by (rule F_lower_nil [where m = "?n - 1"]) (use nlt dl in auto)
      then have "mt s False cmd_tail J c = []" by (simp only: L)
      then show ?thesis using args nlt by (simp del: mt.simps)
    qed
  qed
qed

lemma tail_first:
  assumes "J \<le> length s" "c 2 = None"
  shows "(case mt s False cmd_tail J c of [] \<Rightarrow> None | (j, c') # _ \<Rightarrow> Some (c' (Suc 0), map_option (substring s) (c' 2)))
       = map_option (Pair (c (Suc 0))) (cmd_args (drop J s))"
proof (cases "run is_space s J = 0")
  case True
  then have "cmd_args (drop J s) = (if drop J s = [] then Some None else None)"
    using spaces_drop(1) [of J s] by (simp add: cmd_args_def Let_def)
  moreover note tail_first_none [OF assms(1) True, of c]
  ultimately show ?thesis using assms(2) by simp
next
  case False
  show ?thesis
  proof (cases "J + run is_space s J < length s")
    case True
    then show ?thesis by (rule tail_first_rest) (use False assms in simp_all)
  next
    case lt: False
    show ?thesis by (rule tail_first_end) (use False lt run_bound [OF assms(1), of is_space] assms in simp_all)
  qed
qed

lemma Command_ref:
  "Command s = (case command_ref s of Some (w, u) \<Rightarrow> (parseCommandType w, u) | None \<Rightarrow> (UNKNOWN, None))"
proof (cases s)
  case Nil
  then show ?thesis by (simp add: Command_list mt_commandRegex command_ref_def del: mt.simps)
next
  case (Cons c t)
  let ?wr = "run is_word s (Suc 0)"
  have wr: "?wr = length (takeWhile is_word t)" using Cons by (simp add: run_def)
  show ?thesis
  proof (cases "c = CHR ''/'' \<and> 0 < ?wr")
    case False
    then show ?thesis using Cons wr by (auto simp: Command_list mt_commandRegex command_ref_def Let_def simp del: mt.simps)
  next
    case True
    let ?J = "Suc ?wr" and ?c1 = "[Suc 0 \<mapsto> (Suc 0, Suc ?wr)] :: caps"
    have J: "?J \<le> length s" using run_bound [of "Suc 0" s is_word] Cons by simp
    have sub1: "substring s (Suc 0, ?J) = takeWhile is_word t"
      using takeWhile_eq_take [of is_word t] wr Cons by (simp add: substring_def)
    have rest: "drop (length (takeWhile is_word t)) t = drop ?J s" using wr Cons by simp
    have nw: "takeWhile is_word t \<noteq> []" using True wr by auto
    have ref: "command_ref s = map_option (Pair (takeWhile is_word t)) (cmd_args (drop ?J s))"
      using True Cons nw rest by (simp add: command_ref_def Let_def)
    have s0: "s \<noteq> []" "s ! 0 = CHR ''/''" using True Cons by simp_all
    have s1: "0 < ?wr" using True by simp
    have LL: "mt s False commandRegex 0 Map.empty = mt s False cmd_tail ?J ?c1"
      unfolding mt_commandRegex using s0 s1 by (simp del: mt.simps)
    have "Command s = (case (case mt s False cmd_tail ?J ?c1 of [] \<Rightarrow> None
          | (j, c') # _ \<Rightarrow> Some (c' (Suc 0), map_option (substring s) (c' 2))) of
        None \<Rightarrow> (UNKNOWN, None)
      | Some (g1, u) \<Rightarrow> (case g1 of Some g \<Rightarrow> (parseCommandType (substring s g), u) | None \<Rightarrow> (UNKNOWN, None)))"
      unfolding Command_list LL by (simp split: list.split del: mt.simps)
    also have "\<dots> = (case cmd_args (drop ?J s) of None \<Rightarrow> (UNKNOWN, None)
        | Some u \<Rightarrow> (parseCommandType (takeWhile is_word t), u))"
      using tail_first [OF J, of ?c1] sub1 by (simp split: option.split del: mt.simps)
    finally show ?thesis using ref by (simp split: option.split)
  qed
qed

text \<open>C35: The Command constructor, which matches /^\/(\w+)(?:\s+(.+))?$/ with ECMAScript backtracking, gives the same type and URL as a direct reading: a slash, the longest word, then nothing, or the longest run of spaces and a rest without line terminators, or the last of two or more trailing spaces.\<close>

theorem Command_eq_ref:
  "Command s = (case command_ref s of Some (w, u) \<Rightarrow> (parseCommandType w, u) | None \<Rightarrow> (UNKNOWN, None))"
  by (rule Command_ref)

lemma cmd_value_word: "list_all is_word (cmd_value t)"
  by (cases t) (simp_all add: is_word_def)

lemma cmd_value_nonempty: "cmd_value t \<noteq> []"
  by (cases t) simp_all

lemma parseCommandType_cmd_value: "t \<noteq> UNKNOWN \<Longrightarrow> parseCommandType (cmd_value t) = t"
  by (cases t) (simp_all add: parseCommandType_def)

lemma takeWhile_all: "list_all P xs \<Longrightarrow> takeWhile P (xs @ ys) = xs @ takeWhile P ys"
  by (induction xs) auto

lemma space_not_word: "\<not> is_word (CHR '' '')" "is_space (CHR '' '')" "\<not> is_line_terminator (CHR '' '')"
  by (simp_all add: is_word_def is_space_def is_line_terminator_def)

theorem Command_roundtrip_bare:
  assumes "t \<noteq> UNKNOWN"
  shows "Command (CHR ''/'' # cmd_value t) = (t, None)"
proof -
  have tw: "takeWhile is_word (cmd_value t) = cmd_value t"
    using cmd_value_word [of t] by (simp add: list_all_iff)
  show ?thesis using cmd_value_nonempty [of t] assms
    unfolding Command_ref command_ref_def list.case tw Let_def by (simp add: parseCommandType_cmd_value cmd_args_def)
qed

text \<open>C36: A command written as a slash, the command's name, a space and a URL that is non-empty, does not start with a space and has no line terminator is parsed back as that command with that URL.\<close>

theorem Command_roundtrip_url:
  assumes "t \<noteq> UNKNOWN" and "u \<noteq> []" and "\<not> is_space (hd u)" and "list_all (\<lambda>x. \<not> is_line_terminator x) u"
  shows "Command (CHR ''/'' # cmd_value t @ CHR '' '' # u) = (t, Some u)"
proof -
  have w: "takeWhile is_word (cmd_value t @ CHR '' '' # u) = cmd_value t"
    using takeWhile_all [OF cmd_value_word, of t "CHR '' '' # u"] space_not_word by simp
  have tu: "takeWhile is_space u = []"
    using assms(2,3) by (cases u) simp_all
  show ?thesis using assms w tu space_not_word cmd_value_nonempty [of t]
    by (simp add: Command_ref command_ref_def cmd_args_def parseCommandType_cmd_value Let_def)
qed

theorem Command_bot_suffix:
  "Command ''/sub@telerss_bot http://example.org/feed'' = (UNKNOWN, None)"
  by (simp add: Command_ref command_ref_def cmd_args_def is_word_def is_space_def)

theorem Command_blank_url:
  "Command ''/sub  '' = (SUBSCRIBE, Some '' '')"
  by (simp add: Command_ref command_ref_def cmd_args_def is_word_def is_space_def is_line_terminator_def parseCommandType_def)

end
