(* ===== verification/Exec.thy ===== *)
theory Exec
  imports Bot Command Render
begin

text \<open>
  The command handlers of \<open>src/bot.ts\<close> (\<open>Bot.exec\<close>, \<open>help\<close>, \<open>subscribe\<close>,
  \<open>unsubscribe\<close>, \<open>unsubscribeAll\<close>, \<open>list\<close>, \<open>fetch\<close>, \<open>start\<close>).

  A Telegram message has a chat, possibly a sender and possibly a text. The calls the
  handlers make to the Telegram API (\<open>sendMessage\<close>, \<open>registerCommands\<close>) are appended
  to an outbox; the post deliveries of \<open>/fetch\<close> are the \<open>sent\<close> log of the bot state.
  A handler either completes, returning the new state, or throws before any effect
  (\<open>Inl\<close>, the state unchanged: every handler throws only before its first write or
  send). \<open>exec\<close> catches the error and answers \<open>Error: ${e}\<close>, where \<open>${e}\<close> of an
  \<open>Error\<close> is \<open>Error: \<close> and its message. The text of a failed \<open>fetch(url)\<close> is the
  runtime's, a parameter \<open>terr\<close>.
\<close>

record message =
  msg_chat :: int
  msg_from :: "int option"
  msg_text :: "string option"

datatype api_call = SendMessage int string | RegisterCommands int

record cmd_state =
  bot :: bot_state
  outbox :: "api_call list"

datatype exec_error = InvalidMessage | InvalidUrl | FetchFailed | ParseFailed rss_error
  | StoreFailed store_error

definition error_text :: "string \<Rightarrow> exec_error \<Rightarrow> string" where
  "error_text terr e =
     (case e of
        InvalidMessage \<Rightarrow> ''Error: Invalid message.''
      | InvalidUrl \<Rightarrow> ''Error: Please provide a valid RSS feed URL.''
      | FetchFailed \<Rightarrow> terr
      | ParseFailed MissingRss \<Rightarrow> ''Error: Invalid RSS feed: missing <rss> element''
      | ParseFailed MissingChannel \<Rightarrow> ''Error: Invalid RSS feed: missing <channel> element''
      | StoreFailed AlreadySubscribed \<Rightarrow> ''Error: You are already subscribed to this feed in one of the chats.''
      | StoreFailed NotSubscribed \<Rightarrow> ''Error: You are not subscribed to this feed.''
      | StoreFailed UserNotFound \<Rightarrow> ''Error: User not found.'')"

definition send :: "int \<Rightarrow> string \<Rightarrow> cmd_state \<Rightarrow> cmd_state" where
  "send c txt st = st\<lparr>outbox := outbox st @ [SendMessage c txt]\<rparr>"

definition with_db :: "kv \<Rightarrow> cmd_state \<Rightarrow> cmd_state" where
  "with_db d st = st\<lparr>bot := (bot st)\<lparr>db := d\<rparr>\<rparr>"

text \<open>\<open>commandList\<close>: command, description, parameters.\<close>

definition commandList :: "(CommandType \<times> string \<times> string option) list" where
  "commandList =
     [(SUBSCRIBE, ''Subscribe to a feed'', Some ''<url>''),
      (UNSUBSCRIBE, ''Unsubscribe from a feed'', Some ''<url>''),
      (UNSUBSCRIBE_ALL, ''Unsubscribe from all feeds in the chat'', None),
      (LIST, ''List all subscribed feeds'', None),
      (HELP, ''Show help'', None)]"

definition helpMessage :: string where
  "helpMessage = ''Available commands:'' @ [nl] @
     concat (map (\<lambda>(c, d, p). ''/'' @ cmd_value c @ (case p of Some x \<Rightarrow> '' '' @ x | None \<Rightarrow> []) @ '' - '' @ d @ [nl])
                 commandList)"

definition help_cmd :: "message \<Rightarrow> cmd_state \<Rightarrow> cmd_state" where
  "help_cmd msg st =
     send (msg_chat msg) helpMessage (st\<lparr>outbox := outbox st @ [RegisterCommands (msg_chat msg)]\<rparr>)"

text \<open>\<open>${feed.title}\<close>: an absent title prints as \<open>undefined\<close>.\<close>

definition js_str :: "string option \<Rightarrow> string" where
  "js_str s = (case s of Some x \<Rightarrow> x | None \<Rightarrow> ''undefined'')"

text \<open>
  \<open>subscribe\<close>: the feed is fetched without condition and without the cache, its body
  parsed whatever the status; \<open>parseRSS\<close> returns an object or throws, so the test
  \<open>if (feed)\<close> always holds and the \<open>Invalid RSS feed.\<close> branch is never taken.
\<close>

definition subscribe :: "network \<Rightarrow> message \<Rightarrow> url \<Rightarrow> cmd_state \<Rightarrow> exec_error + cmd_state" where
  "subscribe net msg u st =
     (case msg_from msg of
        None \<Rightarrow> Inl InvalidMessage
      | Some userId \<Rightarrow>
          (if u = [] then Inl InvalidUrl
           else case net u NoCondition of
             None \<Rightarrow> Inl FetchFailed
           | Some resp \<Rightarrow>
               (case parseRSS (resp_body resp) of
                  Inl e \<Rightarrow> Inl (ParseFailed e)
                | Inr feed \<Rightarrow>
                    (case addSubscription (db (bot st)) userId (msg_chat msg) u of
                       Inl e \<Rightarrow> Inl (StoreFailed e)
                     | Inr d \<Rightarrow> Inr (send (msg_chat msg) (''Subscribed to: '' @ js_str (channel_title feed)) (with_db d st))))))"

definition unsubscribe :: "message \<Rightarrow> url \<Rightarrow> cmd_state \<Rightarrow> exec_error + cmd_state" where
  "unsubscribe msg u st =
     (case msg_from msg of
        None \<Rightarrow> Inl InvalidMessage
      | Some userId \<Rightarrow>
          (if u = [] then Inl InvalidUrl
           else case deleteSubscription (db (bot st)) userId u of
             Inl e \<Rightarrow> Inl (StoreFailed e)
           | Inr d \<Rightarrow> Inr (send (msg_chat msg) (''Unsubscribed from: '' @ u) (with_db d st))))"

definition unsubscribeAll :: "message \<Rightarrow> cmd_state \<Rightarrow> exec_error + cmd_state" where
  "unsubscribeAll msg st =
     (case msg_from msg of
        None \<Rightarrow> Inl InvalidMessage
      | Some userId \<Rightarrow>
          Inr (send (msg_chat msg) ''Unsubscribed from all feeds.''
                 (with_db (deleteAllSubscriptionsInChat (db (bot st)) userId (msg_chat msg)) st)))"

definition list_cmd :: "message \<Rightarrow> cmd_state \<Rightarrow> exec_error + cmd_state" where
  "list_cmd msg st =
     (case msg_from msg of
        None \<Rightarrow> Inl InvalidMessage
      | Some userId \<Rightarrow>
          (case getChatSubscriptions (db (bot st)) userId (msg_chat msg) of
             Inl e \<Rightarrow> Inl (StoreFailed e)
           | Inr subs \<Rightarrow>
               Inr (send (msg_chat msg)
                      (if subs \<noteq> [] then ''Subscribed feeds:'' @ [nl] @ ''- '' @ join_str ([nl] @ ''- '') (map url subs)
                       else ''You are not subscribed to any feeds in this chat yet.'') st)))"

definition fetch_cmd ::
  "date_parser \<Rightarrow> network \<Rightarrow> (nat \<Rightarrow> timestamp) \<Rightarrow> message \<Rightarrow> cmd_state \<Rightarrow> exec_error + cmd_state" where
  "fetch_cmd pd net clk msg st =
     (case msg_from msg of
        None \<Rightarrow> Inl InvalidMessage
      | Some userId \<Rightarrow>
          (case bot_fetch pd net clk userId (msg_chat msg) (bot st) of
             Inl e \<Rightarrow> Inl (StoreFailed e)
           | Inr b \<Rightarrow> Inr (st\<lparr>bot := b\<rparr>)))"

text \<open>\<open>Bot.start\<close>: registers the user and the commands and sends the welcome text.\<close>

definition start :: "message \<Rightarrow> cmd_state \<Rightarrow> exec_error + cmd_state" where
  "start msg st =
     (case msg_from msg of
        None \<Rightarrow> Inl InvalidMessage
      | Some userId \<Rightarrow>
          Inr (send (msg_chat msg) ''Welcome to the RSS Subscription Bot! Use /help for a list of commands.''
                 ((with_db (addUser (db (bot st)) userId) st)\<lparr>outbox := outbox st @ [RegisterCommands (msg_chat msg)]\<rparr>)))"

text \<open>\<open>if (!command.url)\<close>: an absent or empty URL is answered without calling the handler.\<close>

definition with_url :: "message \<Rightarrow> string option \<Rightarrow> (url \<Rightarrow> exec_error + cmd_state) \<Rightarrow> cmd_state \<Rightarrow> exec_error + cmd_state" where
  "with_url msg u f st =
     (case u of Some v \<Rightarrow> (if v = [] then Inr (send (msg_chat msg) ''Please provide a valid RSS feed URL.'' st) else f v)
      | None \<Rightarrow> Inr (send (msg_chat msg) ''Please provide a valid RSS feed URL.'' st))"

definition dispatch ::
  "date_parser \<Rightarrow> network \<Rightarrow> (nat \<Rightarrow> timestamp) \<Rightarrow> message \<Rightarrow> CommandType \<times> string option \<Rightarrow> cmd_state
     \<Rightarrow> exec_error + cmd_state" where
  "dispatch pd net clk msg cmd st =
     (case fst cmd of
        SUBSCRIBE \<Rightarrow> with_url msg (snd cmd) (\<lambda>v. subscribe net msg v st) st
      | UNSUBSCRIBE \<Rightarrow> with_url msg (snd cmd) (\<lambda>v. unsubscribe msg v st) st
      | UNSUBSCRIBE_ALL \<Rightarrow> unsubscribeAll msg st
      | LIST \<Rightarrow> list_cmd msg st
      | HELP \<Rightarrow> Inr (help_cmd msg st)
      | FETCH \<Rightarrow> fetch_cmd pd net clk msg st
      | UNKNOWN \<Rightarrow> Inr (help_cmd msg st))"

text \<open>\<open>const userInput = msg.text || ''; const command = new Command(userInput)\<close>\<close>

definition command_of :: "message \<Rightarrow> CommandType \<times> string option" where
  "command_of msg = Command (case msg_text msg of Some t \<Rightarrow> t | None \<Rightarrow> [])"

definition exec ::
  "date_parser \<Rightarrow> network \<Rightarrow> (nat \<Rightarrow> timestamp) \<Rightarrow> string \<Rightarrow> message \<Rightarrow> cmd_state \<Rightarrow> cmd_state" where
  "exec pd net clk terr msg st =
     (case dispatch pd net clk msg (command_of msg) st of
        Inl e \<Rightarrow> send (msg_chat msg) (''Error: '' @ error_text terr e) st
      | Inr st' \<Rightarrow> st')"

subsection \<open>Lemmas on the handlers\<close>

lemma bot_send [simp]: "bot (send c t st) = bot st"
  by (simp add: send_def)

lemma outbox_send [simp]: "outbox (send c t st) = outbox st @ [SendMessage c t]"
  by (simp add: send_def)

lemma db_with_db [simp]: "db (bot (with_db d st)) = d" "outbox (with_db d st) = outbox st"
  by (simp_all add: with_db_def)

lemma bot_fetch_inv:
  assumes inv: "store_inv (db bs)" and ok: "bot_fetch pd net clk i c bs = Inr bs'"
  shows "store_inv (db bs')"
proof -
  from ok obtain u where u: "db bs i = Some u"
    and bs': "bs' = updateUserSubscriptions pd net clk (Some c) (load_user u) bs"
    by (auto simp: bot_fetch_def store_get_def split: option.splits)
  obtain u' where db': "db bs' = (db bs)(uid u \<mapsto> u')"
    and uid': "uid u' = uid u" and urls: "map url (subscriptions u') = map url (subscriptions u)"
    using updateUserSubscriptions_record [of pd net clk "Some c" u bs] bs' by blast
  from inv u have "uid u = i" "user_ok u" by (auto simp: store_inv_def)
  moreover from \<open>user_ok u\<close> urls have "user_ok u'" by (simp add: user_ok_def)
  ultimately show ?thesis
    using inv db' uid' by (auto simp: store_inv_def)
qed

lemma with_url_cases:
  "with_url msg u f st = Inr st' \<Longrightarrow> st' = send (msg_chat msg) ''Please provide a valid RSS feed URL.'' st \<or> (\<exists>v. v \<noteq> [] \<and> f v = Inr st')"
  by (auto simp: with_url_def split: option.splits if_splits)

lemma help_cmd_fields [simp]:
  "bot (help_cmd msg st) = bot st"
  "outbox (help_cmd msg st) = outbox st @ [RegisterCommands (msg_chat msg), SendMessage (msg_chat msg) helpMessage]"
  by (simp_all add: help_cmd_def send_def)

lemmas handler_defs = subscribe_def unsubscribe_def unsubscribeAll_def list_cmd_def fetch_cmd_def

lemma dispatch_inv:
  assumes inv: "store_inv (db (bot st))" and ok: "dispatch pd net clk msg cmd st = Inr st'"
  shows "store_inv (db (bot st'))"
proof (cases "fst cmd")
  case FETCH
  with ok obtain i b where "bot_fetch pd net clk i (msg_chat msg) (bot st) = Inr b" "st' = st\<lparr>bot := b\<rparr>"
    by (auto simp: dispatch_def fetch_cmd_def split: option.splits sum.splits)
  with bot_fetch_inv [OF inv] show ?thesis by simp
next
  case SUBSCRIBE
  with ok inv show ?thesis
    by (auto simp: dispatch_def subscribe_def dest!: with_url_cases addSubscription_inv [OF inv]
        split: option.splits sum.splits if_splits)
next
  case UNSUBSCRIBE
  with ok inv show ?thesis
    by (auto simp: dispatch_def unsubscribe_def dest!: with_url_cases deleteSubscription_inv [OF inv]
        split: option.splits sum.splits if_splits)
qed (use ok inv in \<open>auto simp: dispatch_def handler_defs deleteAllSubscriptionsInChat_inv split: option.splits sum.splits\<close>)

lemma dispatch_reply:
  assumes "fst cmd \<noteq> FETCH" and "dispatch pd net clk msg cmd st = Inr st'"
  shows "\<exists>pre txt. outbox st' = outbox st @ pre @ [SendMessage (msg_chat msg) txt]
           \<and> set pre \<subseteq> {RegisterCommands (msg_chat msg)}"
proof (cases "fst cmd")
  case SUBSCRIBE
  with assms(2) show ?thesis
    by (fastforce simp: dispatch_def subscribe_def dest!: with_url_cases split: option.splits sum.splits if_splits)
next
  case UNSUBSCRIBE
  with assms(2) show ?thesis
    by (fastforce simp: dispatch_def unsubscribe_def dest!: with_url_cases split: option.splits sum.splits if_splits)
next
  case HELP
  with assms(2) show ?thesis by (auto simp: dispatch_def)
next
  case UNKNOWN
  with assms(2) show ?thesis by (auto simp: dispatch_def)
qed (use assms in \<open>fastforce simp: dispatch_def handler_defs split: option.splits sum.splits\<close>)+

text \<open>C14: Every command exec handles keeps the store invariant (each user under its own id, subscription URLs distinct per user), /fetch with its chat filter and the merge-back included.\<close>

theorem exec_store_inv:
  "store_inv (db (bot st)) \<Longrightarrow> store_inv (db (bot (exec pd net clk terr msg st)))"
  by (auto simp: exec_def dest: dispatch_inv split: sum.split)

text \<open>C15: For every command but /fetch, exec sends exactly one text message, to the chat the command came from, preceded at most by a registration of the command list; errors included.\<close>

theorem exec_replies_once:
  assumes "fst (command_of msg) \<noteq> FETCH"
  shows "\<exists>pre txt. outbox (exec pd net clk terr msg st) = outbox st @ pre @ [SendMessage (msg_chat msg) txt]
           \<and> set pre \<subseteq> {RegisterCommands (msg_chat msg)}"
proof (cases "dispatch pd net clk msg (command_of msg) st")
  case (Inl e)
  then have "outbox (exec pd net clk terr msg st)
      = outbox st @ [] @ [SendMessage (msg_chat msg) (''Error: '' @ error_text terr e)]"
    by (simp add: exec_def)
  moreover have "set ([] :: api_call list) \<subseteq> {RegisterCommands (msg_chat msg)}" by simp
  ultimately show ?thesis by blast
next
  case (Inr st')
  with dispatch_reply [OF assms] show ?thesis by (simp add: exec_def)
qed

text \<open>C17: /fetch from a stored user runs updateUserSubscriptions for that user restricted to the chat and sends no reply of its own, whether or not there were new posts.\<close>

theorem exec_fetch_silent:
  assumes "fst (command_of msg) = FETCH" and "msg_from msg = Some i" and "db (bot st) i = Some u"
  shows "exec pd net clk terr msg st
           = st\<lparr>bot := updateUserSubscriptions pd net clk (Some (msg_chat msg)) (load_user u) (bot st)\<rparr>"
  using assms by (simp add: exec_def dispatch_def fetch_cmd_def bot_fetch_def store_get_def)

text \<open>C19: A message whose text is /start is answered exactly as /help (the command list is registered and the help text sent) and leaves the bot state, the store included, unchanged: the command type has no START case, so Bot.start and its addUser are never called.\<close>

theorem exec_start_help:
  "msg_text msg = Some ''/start'' \<Longrightarrow>
   exec pd net clk terr msg st = help_cmd msg st \<and> bot (exec pd net clk terr msg st) = bot st"
proof -
  assume t: "msg_text msg = Some ''/start''"
  have "command_of msg = (UNKNOWN, None)"
    using t by (simp add: command_of_def Command_ref command_ref_def cmd_args_def is_word_def parseCommandType_def)
  then show ?thesis by (simp add: exec_def dispatch_def)
qed

text \<open>C18: /list from a user the store does not hold is answered with the doubled prefix Error: Error: User not found. instead of the empty-list text.\<close>

theorem exec_list_new_user:
  assumes "fst (command_of msg) = LIST" and "msg_from msg = Some i" and "db (bot st) i = None"
  shows "exec pd net clk terr msg st = send (msg_chat msg) ''Error: Error: User not found.'' st"
  using assms by (simp add: exec_def dispatch_def list_cmd_def getChatSubscriptions_def store_get_def error_text_def)

text \<open>C16: /sub with a URL the user does not have, whose feed parses, stores the user with a fresh subscription for the chat appended and answers Subscribed to: and the feed title.\<close>

theorem exec_subscribe_new:
  assumes cmd: "command_of msg = (SUBSCRIBE, Some u)" and ne: "u \<noteq> []" and frm: "msg_from msg = Some i"
    and inv: "store_inv (db (bot st))"
    and resp: "net u NoCondition = Some r" and feed: "parseRSS (resp_body r) = Inr f"
    and new: "u \<notin> url ` set (subscriptions (get_or_new (db (bot st)) i))"
  shows "\<exists>user. db (bot (exec pd net clk terr msg st)) i = Some user
           \<and> subscriptions user = subscriptions (get_or_new (db (bot st)) i) @ [newSubscription (msg_chat msg) u]
           \<and> outbox (exec pd net clk terr msg st)
               = outbox st @ [SendMessage (msg_chat msg) (''Subscribed to: '' @ js_str (channel_title f))]"
proof -
  let ?user = "get_or_new (db (bot st)) i"
  let ?user' = "?user\<lparr>subscriptions := subscriptions ?user @ [newSubscription (msg_chat msg) u]\<rparr>"
  have "find (\<lambda>s. url s = u) (subscriptions ?user) = None"
    using new by (auto simp: find_None_iff)
  then have add: "addSubscription (db (bot st)) i (msg_chat msg) u = Inr (store_set (db (bot st)) ?user')"
    by (simp add: addSubscription_def Let_def)
  have "uid ?user' = i" using get_or_new_uid [OF inv] by simp
  then have "store_set (db (bot st)) ?user' i = Some ?user'" by (simp add: store_set_def)
  with cmd ne frm resp feed add show ?thesis
    by (simp add: exec_def dispatch_def with_url_def subscribe_def)
qed

end
