(* ===== verification/JsText.thy ===== *)
theory JsText
  imports Render
begin

text \<open>
  The JavaScript conversions between numbers and text the code relies on, modelled after
  ECMA-262: \<open>Number.prototype.toString\<close> on integers (\<open>${n}\<close> in a template),
  \<open>parseInt\<close> without a radix (\<open>NaN\<close> is \<open>None\<close>) and \<open>String.prototype.split\<close> on one
  character; and the round trip \<open>parseInt(String(i)) = i\<close>.
\<close>

text \<open>\<open>Number.prototype.toString\<close> on an integer: its decimal digits, with a minus sign.\<close>

definition js_int_str :: "int \<Rightarrow> string" where
  "js_int_str i = (if i < 0 then CHR ''-'' # dec_digits (nat (- i)) else dec_digits (nat i))"

text \<open>
  \<open>parseInt(s)\<close> with no radix: leading white space is skipped, then a sign, then a
  \<open>0x\<close> prefix selects base 16; the longest run of digits of the base is read, and no
  digit at all is \<open>NaN\<close>.
\<close>

definition digit_val :: "nat \<Rightarrow> char \<Rightarrow> nat option" where
  "digit_val b c =
     (let n = of_char c :: nat
      in if 48 \<le> n \<and> n \<le> 57 \<and> n - 48 < b then Some (n - 48)
         else if 97 \<le> n \<and> n \<le> 122 \<and> n - 87 < b then Some (n - 87)
         else if 65 \<le> n \<and> n \<le> 90 \<and> n - 55 < b then Some (n - 55)
         else None)"

fun digits_val :: "nat \<Rightarrow> nat \<Rightarrow> string \<Rightarrow> nat" where
  "digits_val b acc [] = acc"
| "digits_val b acc (c # cs) = (case digit_val b c of Some d \<Rightarrow> digits_val b (acc * b + d) cs | None \<Rightarrow> acc)"

definition parse_digits :: "nat \<Rightarrow> string \<Rightarrow> nat option" where
  "parse_digits b s = (if s \<noteq> [] \<and> digit_val b (hd s) \<noteq> None then Some (digits_val b 0 s) else None)"

definition js_white :: "char \<Rightarrow> bool" where
  "js_white c \<longleftrightarrow> of_char c \<in> {9, 10, 11, 12, 13, 32, 160::nat}"

definition parseInt :: "string \<Rightarrow> int option" where
  "parseInt s =
     (let s1 = dropWhile js_white s;
          (sg, s2) = (case s1 of c # t \<Rightarrow> (if c = CHR ''-'' then (-1, t) else if c = CHR ''+'' then (1, t) else (1, s1))
                               | [] \<Rightarrow> (1, []));
          (b, s3) = (if take 2 s2 = ''0x'' \<or> take 2 s2 = ''0X'' then (16, drop 2 s2) else (10, s2))
      in map_option (\<lambda>n. sg * int n) (parse_digits b s3))"

text \<open>\<open>String.prototype.split\<close> on a one-character separator.\<close>

fun split_on :: "char \<Rightarrow> string \<Rightarrow> string list" where
  "split_on d [] = [[]]"
| "split_on d (c # cs) = (if c = d then [] # split_on d cs
                          else (case split_on d cs of w # ws \<Rightarrow> (c # w) # ws | [] \<Rightarrow> [[c]]))"

subsection \<open>The integer round trip\<close>

declare dec_digits.simps [simp del]

lemma digit_val_dec [simp]: "k < 10 \<Longrightarrow> digit_val 10 (dec_digit k) = Some k"
  by (simp add: digit_val_def dec_digit_def)

lemma dec_digit_char: "k < 10 \<Longrightarrow> dec_digit k = c \<Longrightarrow> (of_char c :: nat) = 48 + k"
  by (auto simp: dec_digit_def)

lemma dec_digit_neq:
  assumes "k < 10"
  shows "dec_digit k \<noteq> CHR ''x''" "dec_digit k \<noteq> CHR ''X''" "dec_digit k \<noteq> CHR ''-''"
    "dec_digit k \<noteq> CHR ''+''" "dec_digit k \<noteq> CHR '':''" "\<not> js_white (dec_digit k)"
  using dec_digit_char [OF assms, of "CHR ''x''"] dec_digit_char [OF assms, of "CHR ''X''"]
    dec_digit_char [OF assms, of "CHR ''-''"] dec_digit_char [OF assms, of "CHR ''+''"]
    dec_digit_char [OF assms, of "CHR '':''"] dec_digit_char [OF assms, of "dec_digit k"] assms
  by (auto simp: js_white_def)

lemma dec_digits_chars: "c \<in> set (dec_digits n) \<Longrightarrow> \<exists>k<10. c = dec_digit k"
proof (induction n rule: dec_digits.induct)
  case (1 n)
  show ?case
  proof (cases "n < 10")
    case True
    with 1(2) have "c = dec_digit n" by (simp add: dec_digits.simps [of n])
    with True show ?thesis by blast
  next
    case False
    with 1(2) have "c \<in> set (dec_digits (n div 10)) \<or> c = dec_digit (n mod 10)"
      by (auto simp: dec_digits.simps [of n])
    moreover have "n mod 10 < 10" by simp
    ultimately show ?thesis using 1(1) [OF False] by blast
  qed
qed

lemma dec_digits_no_x: "CHR ''x'' \<notin> set (dec_digits n)" "CHR ''X'' \<notin> set (dec_digits n)"
  "CHR '':'' \<notin> set (dec_digits n)"
  using dec_digits_chars dec_digit_neq by fastforce+

lemma dec_digits_hd: "\<exists>k<10. \<exists>t. dec_digits n = dec_digit k # t"
proof (induction n rule: dec_digits.induct)
  case (1 n)
  show ?case
  proof (cases "n < 10")
    case True
    then show ?thesis by (auto simp: dec_digits.simps [of n])
  next
    case False
    with 1 show ?thesis by (auto simp: dec_digits.simps [of n])
  qed
qed

lemma digits_val_append:
  "(\<forall>c\<in>set xs. digit_val b c \<noteq> None) \<Longrightarrow> digits_val b acc (xs @ ys) = digits_val b (digits_val b acc xs) ys"
  by (induction xs arbitrary: acc) auto

lemma digits_val_dec: "digits_val 10 0 (dec_digits n) = n"
proof (induction n rule: dec_digits.induct)
  case (1 n)
  show ?case
  proof (cases "n < 10")
    case True
    then show ?thesis by (simp add: dec_digits.simps [of n])
  next
    case False
    have all: "\<forall>c\<in>set (dec_digits (n div 10)). digit_val 10 c \<noteq> None"
      using dec_digits_chars by fastforce
    have "digits_val 10 0 (dec_digits n) = digits_val 10 (n div 10) [dec_digit (n mod 10)]"
      using digits_val_append [OF all, of 0 "[dec_digit (n mod 10)]"] 1 False
      by (simp add: dec_digits.simps [of n])
    also have "\<dots> = n" by simp
    finally show ?thesis .
  qed
qed

lemma no_hex_prefix: "CHR ''x'' \<notin> set s \<Longrightarrow> CHR ''X'' \<notin> set s \<Longrightarrow> \<not> (take 2 s = ''0x'' \<or> take 2 s = ''0X'')"
  by (cases s; cases "tl s") auto

lemma parse_dec_digits: "parse_digits 10 (dec_digits n) = Some n"
  using dec_digits_hd [of n] digits_val_dec [of n] by (auto simp: parse_digits_def)

lemma parseInt_dec:
  assumes "sg = (1::int) \<or> sg = -1"
  shows "(let (b, s3) = (if take 2 (dec_digits n) = ''0x'' \<or> take 2 (dec_digits n) = ''0X''
                        then (16, drop 2 (dec_digits n)) else (10, dec_digits n))
          in map_option (\<lambda>m. sg * int m) (parse_digits b s3)) = Some (sg * int n)"
  using no_hex_prefix [OF dec_digits_no_x(1,2)] parse_dec_digits by simp

lemma dec_digits_lead:
  "dropWhile js_white (dec_digits n) = dec_digits n"
  "(case dec_digits n of c # t \<Rightarrow> (if c = CHR ''-'' then (-1::int, t) else if c = CHR ''+'' then (1, t) else (1, dec_digits n))
     | [] \<Rightarrow> (1, [])) = (1, dec_digits n)"
proof -
  obtain k t where k: "k < 10" and t: "dec_digits n = dec_digit k # t"
    using dec_digits_hd by blast
  show "dropWhile js_white (dec_digits n) = dec_digits n"
    "(case dec_digits n of c # t \<Rightarrow> (if c = CHR ''-'' then (-1::int, t) else if c = CHR ''+'' then (1, t) else (1, dec_digits n))
     | [] \<Rightarrow> (1, [])) = (1, dec_digits n)"
    using dec_digit_neq [OF k] by (simp_all add: t)
qed

lemma parseInt_js_int_str: "parseInt (js_int_str i) = Some i"
proof (cases "i < 0")
  case True
  then have "parseInt (js_int_str i) = Some (- 1 * int (nat (- i)))"
    using parseInt_dec [of "-1" "nat (- i)"] by (simp add: parseInt_def js_int_str_def js_white_def)
  with True show ?thesis by simp
next
  case False
  then have "parseInt (js_int_str i) = Some (1 * int (nat i))"
    using parseInt_dec [of 1 "nat i"] by (simp add: parseInt_def js_int_str_def dec_digits_lead)
  with False show ?thesis by simp
qed

lemma split_on_no_sep: "d \<notin> set s \<Longrightarrow> split_on d s = [s]"
  by (induction s) auto

lemma js_int_str_no_colon: "CHR '':'' \<notin> set (js_int_str i)"
  using dec_digits_no_x(3) by (simp add: js_int_str_def)

lemma js_int_str_chars:
  assumes "c \<in> set (js_int_str i)" shows "c = CHR ''-'' \<or> (\<exists>k<10. c = dec_digit k)"
proof -
  from assms have "c = CHR ''-'' \<or> (\<exists>n. c \<in> set (dec_digits n))"
    unfolding js_int_str_def by (cases "i < 0") auto
  then show ?thesis using dec_digits_chars by blast
qed

lemma js_int_str_plain:
  assumes "c \<in> set (js_int_str i)"
  shows "c \<notin> {CHR 0x09, CHR 0x0A, CHR 0x0D, CHR ''#'', CHR ''?'', CHR ''&'', CHR ''='', CHR ''%'', CHR ''+''}"
proof -
  let ?S = "{CHR 0x09, CHR 0x0A, CHR 0x0D, CHR ''#'', CHR ''?'', CHR ''&'', CHR ''='', CHR ''%'', CHR ''+''}"
  have far: "(of_char d :: nat) < 48 \<or> 57 < (of_char d :: nat)" if "d \<in> ?S" for d
    using that by auto
  from js_int_str_chars [OF assms] consider "c = CHR ''-''" | k where "k < 10" "c = dec_digit k" by blast
  then show ?thesis
  proof cases
    case 1
    then show ?thesis by simp
  next
    case 2
    have "(of_char c :: nat) = 48 + k" using dec_digit_char [OF 2(1)] 2(2) by simp
    with 2(1) far show ?thesis by fastforce
  qed
qed

end
