(* ===== verification/Sweep.thy ===== *)
theory Sweep
  imports Bot JsText
begin

text \<open>
  \<open>Bot.fetchAll\<close> and \<open>UserStore.listIds\<close> (\<open>src/bot.ts\<close>, \<open>src/store.ts\<close>): the sweep
  over every stored user. The KV namespace's listing (\<open>kv.list\<close>, a Cloudflare runtime
  call) is modelled after its documentation: the key names with the prefix, in their
  stored order, in pages of at most 1000, with an opaque cursor (here the position of the
  next page) and \<open>list_complete\<close>. The key of user \<open>i\<close> is \<open>user:${i}\<close>; \<open>listIds\<close> reads
  the id back with \<open>parseInt\<close>, modelled after ECMA-262 (\<open>NaN\<close> is \<open>None\<close>).

  The users of one page are updated under \<open>Promise.allSettled\<close>; the model runs them one
  after the other in the order of the page, which is the schedule in which every user's
  work completes before the next one's starts (the users' records are disjoint; what
  they share is the feed cache and the order of the sent messages).
\<close>

definition user_key :: "int \<Rightarrow> string" where
  "user_key i = ''user:'' @ js_int_str i"

text \<open>\<open>parseInt(key.name.split(':')[1])\<close>: a missing second part is \<open>undefined\<close>.\<close>

definition key_id :: "string \<Rightarrow> int option" where
  "key_id name = (case split_on CHR '':'' name of _ # p # _ \<Rightarrow> parseInt p | _ \<Rightarrow> parseInt ''undefined'')"

text \<open>The KV listing: \<open>kv.list({prefix, cursor})\<close> with the default limit of 1000 keys.\<close>

definition kv_list_limit :: nat where
  "kv_list_limit = 1000"

definition kv_list :: "string list \<Rightarrow> string \<Rightarrow> nat option \<Rightarrow> string list \<times> bool \<times> nat" where
  "kv_list names pfx cur =
     (let ks = filter (\<lambda>k. take (length pfx) k = pfx) names;
          start = (case cur of Some c \<Rightarrow> c | None \<Rightarrow> 0)
      in (take kv_list_limit (drop start ks), length ks \<le> start + kv_list_limit, start + kv_list_limit))"

definition listIds :: "string list \<Rightarrow> nat option \<Rightarrow> int option list \<times> nat option" where
  "listIds names cur =
     (let (page, complete, next) = kv_list names ''user:'' cur
      in (map key_id page, if complete then None else Some next))"

text \<open>One user of a page: \<open>store.get(id)\<close>, a missing user logged and skipped.\<close>

definition visit :: "date_parser \<Rightarrow> network \<Rightarrow> (nat \<Rightarrow> timestamp) \<Rightarrow> int option \<Rightarrow> bot_state \<Rightarrow> bot_state" where
  "visit pd net clk oid bs =
     (case oid of
        None \<Rightarrow> bs
      | Some i \<Rightarrow> (case store_get (db bs) i of
                    None \<Rightarrow> bs
                  | Some u \<Rightarrow> updateUserSubscriptions pd net clk None (load_user u) bs))"

partial_function (option) fetchAll_from ::
  "date_parser \<Rightarrow> network \<Rightarrow> (nat \<Rightarrow> timestamp) \<Rightarrow> string list \<Rightarrow> nat option \<Rightarrow> bot_state \<Rightarrow> bot_state option" where
  "fetchAll_from pd net clk names cursor bs =
     (let (ids, next) = listIds names cursor;
          bs' = (if ids \<noteq> [] then fold (visit pd net clk) ids bs else bs)
      in case next of None \<Rightarrow> Some bs' | Some c \<Rightarrow> fetchAll_from pd net clk names (Some c) bs')"

definition fetchAll :: "date_parser \<Rightarrow> network \<Rightarrow> (nat \<Rightarrow> timestamp) \<Rightarrow> string list \<Rightarrow> bot_state \<Rightarrow> bot_state option" where
  "fetchAll pd net clk names bs = fetchAll_from pd net clk names None bs"

subsection \<open>The key round trip\<close>

lemma key_id_user_key: "key_id (user_key i) = Some i"
  using split_on_no_sep [OF js_int_str_no_colon] parseInt_js_int_str
  by (simp add: key_id_def user_key_def)

subsection \<open>The paginated sweep\<close>

lemma fold_nonempty: "(if xs \<noteq> [] then fold f xs b else b) = fold f xs b"
  by (cases xs) auto

lemma fetchAll_from_step:
  "fetchAll_from pd net clk names cur bs =
     (let ks = filter (\<lambda>k. take (length ''user:'') k = ''user:'') names; s = (case cur of Some c \<Rightarrow> c | None \<Rightarrow> 0);
          bs' = fold (visit pd net clk) (map key_id (take 1000 (drop s ks))) bs
      in if length ks \<le> s + 1000 then Some bs' else fetchAll_from pd net clk names (Some (s + 1000)) bs')"
  by (subst fetchAll_from.simps) (simp add: listIds_def kv_list_def kv_list_limit_def Let_def fold_nonempty)

lemma fetchAll_from_fold:
  "fetchAll_from pd net clk names cur bs =
     Some (fold (visit pd net clk)
             (map key_id (drop (case cur of Some c \<Rightarrow> c | None \<Rightarrow> 0) (filter (\<lambda>k. take (length ''user:'') k = ''user:'') names))) bs)"
proof (induction "length (filter (\<lambda>k. take (length ''user:'') k = ''user:'') names) - (case cur of Some c \<Rightarrow> c | None \<Rightarrow> 0)"
    arbitrary: cur bs rule: less_induct)
  case less
  define ks where "ks = filter (\<lambda>k. take (length ''user:'') k = ''user:'') names"
  define s where "s = (case cur of Some c \<Rightarrow> c | None \<Rightarrow> 0)"
  define bs' where "bs' = fold (visit pd net clk) (map key_id (take 1000 (drop s ks))) bs"
  have split: "fold (visit pd net clk) (map key_id (drop s ks)) bs
      = fold (visit pd net clk) (map key_id (drop (s + 1000) ks)) bs'"
  proof -
    have d: "drop s ks = take 1000 (drop s ks) @ drop (s + 1000) ks"
      using append_take_drop_id [of 1000 "drop s ks"] by (simp add: add.commute)
    show ?thesis unfolding bs'_def by (subst d) simp
  qed
  have st: "fetchAll_from pd net clk names cur bs =
      (if length ks \<le> s + 1000 then Some bs' else fetchAll_from pd net clk names (Some (s + 1000)) bs')"
    unfolding ks_def s_def bs'_def by (rule fetchAll_from_step [unfolded Let_def])
  show ?case
  proof (cases "length ks \<le> s + 1000")
    case True
    then have "take 1000 (drop s ks) = drop s ks" by simp
    with True st show ?thesis unfolding ks_def [symmetric] s_def [symmetric] bs'_def by simp
  next
    case False
    then have "length ks - (s + 1000) < length ks - s" by simp
    then have "fetchAll_from pd net clk names (Some (s + 1000)) bs'
        = Some (fold (visit pd net clk) (map key_id (drop (s + 1000) ks)) bs')"
      using less [of "Some (s + 1000)"] unfolding ks_def s_def by simp
    with False split st show ?thesis unfolding ks_def [symmetric] s_def [symmetric] by simp
  qed
qed

lemma user_key_prefix: "take (length ''user:'') (user_key i) = ''user:''"
  by (simp add: user_key_def)

text \<open>C21: The paginated sweep fetchAll returns on every KV listing: the do-while over listIds pages ends.\<close>

theorem fetchAll_terminates: "\<exists>r. fetchAll pd net clk names bs = Some r"
  by (simp add: fetchAll_def fetchAll_from_fold)

text \<open>C22: On a KV listing of the keys user:<id>, fetchAll visits every listed user exactly once, in listing order, across all pages: the pagination loses and repeats nobody and every key reads back as its id.\<close>

theorem fetchAll_users:
  "fetchAll pd net clk (map user_key ids) bs = Some (fold (\<lambda>i. visit pd net clk (Some i)) ids bs)"
proof -
  have "filter (\<lambda>k. take (length ''user:'') k = ''user:'') (map user_key ids) = map user_key ids"
    by (rule filter_True) (auto simp only: set_map user_key_prefix)
  then show ?thesis
    by (simp add: fetchAll_def fetchAll_from_fold key_id_user_key fold_map comp_def del: length_Cons)
qed

end
