(* ===== verification/Telegram.thy ===== *)
theory Telegram
  imports Exec JsText
begin

text \<open>
  The Telegram Bot API client of \<open>src/telegram.ts\<close>: the requests \<open>registerCommands\<close>,
  \<open>sendMessage\<close> and \<open>sendRichMessage\<close> build. \<open>sendRichMessage\<close> and \<open>registerCommands\<close>
  post a JSON body (a \<open>json\<close> value here); \<open>sendMessage\<close>, the one \<open>exec\<close> answers with,
  writes the text into the query string of a GET request without encoding it.

  What Telegram reads from such a URL is modelled after the WHATWG URL standard and the
  \<open>application/x-www-form-urlencoded\<close> parser (a model of the runtime and of the server,
  not of this repository): the URL parser removes every tab and line break and the
  leading and trailing spaces and control characters, the query ends at \<open>#\<close>, the
  parameters are split at \<open>&\<close> and at their first \<open>=\<close>, \<open>+\<close> reads as a space and
  \<open>%XX\<close> as the byte \<open>XX\<close>. Characters the URL parser percent-encodes are decoded back by
  the server, so they are left as they are (strings are byte strings).
\<close>

datatype json = JStr string | JNum int | JBool bool | JArr "json list" | JObj "(string \<times> json) list"

datatype http_method = GET | POST

record http_request =
  req_method :: http_method
  req_url :: string
  req_body :: "json option"

definition api_url :: "string \<Rightarrow> string \<Rightarrow> string" where
  "api_url token m = ''https://api.telegram.org/bot'' @ token @ ''/'' @ m"

text \<open>A \<open>commandList\<close> entry as \<open>JSON.stringify\<close> writes it (an absent \<open>params\<close> is left out).\<close>

definition command_json :: "CommandType \<times> string \<times> string option \<Rightarrow> json" where
  "command_json e =
     (case e of (c, d, p) \<Rightarrow>
        JObj ([(''command'', JStr (cmd_value c)), (''description'', JStr d)]
              @ (case p of Some x \<Rightarrow> [(''params'', JStr x)] | None \<Rightarrow> [])))"

definition registerCommands :: "string \<Rightarrow> (CommandType \<times> string \<times> string option) list \<Rightarrow> int \<Rightarrow> http_request" where
  "registerCommands token commands cid =
     \<lparr>req_method = POST, req_url = api_url token ''setMyCommands'',
      req_body = Some (JObj [(''commands'', JArr (map command_json commands)),
                             (''scope'', JObj [(''type'', JStr ''chat_administrators''), (''chat_id'', JNum cid)])])\<rparr>"

definition js_bool :: "bool \<Rightarrow> string" where
  "js_bool b = (if b then ''true'' else ''false'')"

definition sendMessage ::
  "string \<Rightarrow> int \<Rightarrow> string \<Rightarrow> string option \<Rightarrow> bool option \<Rightarrow> bool \<Rightarrow> http_request" where
  "sendMessage token cid txt parseMode disablePreview silentMode =
     (let u0 = api_url token ''sendMessage'' @ ''?chat_id='' @ js_int_str cid @ ''&text='' @ txt;
          u1 = (case parseMode of
                  Some pm \<Rightarrow> (if pm = ''MarkdownV2'' \<or> pm = ''HTML'' then u0 @ ''&parse_mode='' @ pm else u0)
                | None \<Rightarrow> u0);
          u2 = (case disablePreview of Some b \<Rightarrow> u1 @ ''&disable_web_page_preview='' @ js_bool b | None \<Rightarrow> u1);
          u3 = (if silentMode then u2 @ ''&disable_notification='' @ js_bool silentMode else u2)
      in \<lparr>req_method = GET, req_url = u3, req_body = None\<rparr>)"

definition sendRichMessage :: "string \<Rightarrow> int \<Rightarrow> string \<Rightarrow> http_request" where
  "sendRichMessage token cid txt =
     \<lparr>req_method = POST, req_url = api_url token ''sendMessage'',
      req_body = Some (JObj [(''chat_id'', JNum cid), (''text'', JStr txt), (''parse_mode'', JStr ''MarkdownV2'')])\<rparr>"

text \<open>The requests of the outbox: the bot calls \<open>sendMessage(chatId, text)\<close> with the defaults.\<close>

definition api_request :: "string \<Rightarrow> api_call \<Rightarrow> http_request" where
  "api_request token a =
     (case a of SendMessage c t \<Rightarrow> sendMessage token c t None None False
              | RegisterCommands c \<Rightarrow> registerCommands token commandList c)"

subsection \<open>What the server reads from a URL\<close>

definition url_noise :: "char \<Rightarrow> bool" where
  "url_noise c \<longleftrightarrow> c \<in> {CHR 0x09, CHR 0x0A, CHR 0x0D}"

definition c0_space :: "char \<Rightarrow> bool" where
  "c0_space c \<longleftrightarrow> of_char c \<le> (32::nat)"

definition url_clean :: "string \<Rightarrow> string" where
  "url_clean s = filter (\<lambda>c. \<not> url_noise c) (rev (dropWhile c0_space (rev (dropWhile c0_space s))))"

fun pct_decode :: "string \<Rightarrow> string" where
  "pct_decode (c # a # b # r) =
     (case (digit_val 16 a, digit_val 16 b) of
        (Some x, Some y) \<Rightarrow> (if c = CHR ''%'' then char_of (16 * x + y) # pct_decode r else c # pct_decode (a # b # r))
      | _ \<Rightarrow> c # pct_decode (a # b # r))"
| "pct_decode cs = cs"

definition form_decode :: "string \<Rightarrow> string" where
  "form_decode s = pct_decode (map (\<lambda>c. if c = CHR ''+'' then CHR '' '' else c) s)"

definition form_params :: "string \<Rightarrow> (string \<times> string) list" where
  "form_params q =
     map (\<lambda>p. (form_decode (takeWhile (\<lambda>c. c \<noteq> CHR ''='') p),
               form_decode (drop 1 (dropWhile (\<lambda>c. c \<noteq> CHR ''='') p))))
         (filter (\<lambda>p. p \<noteq> []) (split_on CHR ''&'' q))"

definition url_query :: "string \<Rightarrow> string" where
  "url_query u = drop 1 (dropWhile (\<lambda>c. c \<noteq> CHR ''?'') (takeWhile (\<lambda>c. c \<noteq> CHR ''#'') u))"

definition query_param :: "string \<Rightarrow> string \<Rightarrow> string option" where
  "query_param name u = map_option snd (find (\<lambda>p. fst p = name) (form_params (url_query (url_clean u))))"

definition received_text :: "string \<Rightarrow> api_call \<Rightarrow> string option" where
  "received_text token a = query_param ''text'' (req_url (api_request token a))"

subsection \<open>Lemmas on the URL reading\<close>

lemma split_on_hd: "\<exists>rest. split_on d s = takeWhile (\<lambda>x. x \<noteq> d) s # rest"
  by (induction s) (auto split: list.split)

lemma split_on_append: "d \<notin> set a \<Longrightarrow> split_on d (a @ d # b) = a # split_on d b"
proof (induction a)
  case (Cons x a)
  then show ?case by (auto split: list.split)
qed simp

lemma pct_decode_id: "CHR ''%'' \<notin> set s \<Longrightarrow> pct_decode s = s"
  by (induction s rule: pct_decode.induct) (auto split: option.split)

lemma form_decode_id: "CHR ''%'' \<notin> set s \<Longrightarrow> CHR ''+'' \<notin> set s \<Longrightarrow> form_decode s = s"
proof -
  assume "CHR ''%'' \<notin> set s" "CHR ''+'' \<notin> set s"
  moreover from \<open>CHR ''+'' \<notin> set s\<close> have "map (\<lambda>c. if c = CHR ''+'' then CHR '' '' else c) s = s"
    by (induction s) auto
  ultimately show ?thesis by (simp add: form_decode_def pct_decode_id)
qed

lemma strip_end_append:
  assumes "xs \<noteq> []" and "\<not> P (last xs)"
  shows "rev (dropWhile P (rev (xs @ ys))) = xs @ rev (dropWhile P (rev ys))"
proof -
  from assms obtain zs x where xs: "xs = zs @ [x]" and "\<not> P x" by (cases xs rule: rev_cases) auto
  then show ?thesis by (auto simp: dropWhile_append)
qed

lemma js_int_str_filter: "filter P (js_int_str i) = js_int_str i" if "\<And>c. c \<notin> {CHR 0x09, CHR 0x0A, CHR 0x0D} \<Longrightarrow> P c"
  using js_int_str_plain that by (simp add: filter_id_conv)

lemma form_params_text:
  assumes "CHR ''&'' \<notin> set a"
  shows "\<exists>rest. form_params (''chat_id='' @ a @ ''&text='' @ w)
           = (form_decode (takeWhile (\<lambda>c. c \<noteq> CHR ''='') (''chat_id='' @ a)),
              form_decode (drop 1 (dropWhile (\<lambda>c. c \<noteq> CHR ''='') (''chat_id='' @ a))))
             # (''text'', form_decode (takeWhile (\<lambda>c. c \<noteq> CHR ''&'') w)) # rest"
proof -
  have "CHR ''&'' \<notin> set (''chat_id='' @ a)" using assms by simp
  then have sp: "split_on CHR ''&'' (''chat_id='' @ a @ ''&text='' @ w) = (''chat_id='' @ a) # split_on CHR ''&'' (''text='' @ w)"
    using split_on_append [of "CHR ''&''" "''chat_id='' @ a" "''text='' @ w"] by simp
  obtain rest where r: "split_on CHR ''&'' (''text='' @ w) = (''text='' @ takeWhile (\<lambda>c. c \<noteq> CHR ''&'') w) # rest"
    using split_on_hd [of "CHR ''&''" "''text='' @ w"] by auto
  have "form_decode ''text'' = ''text''" by (simp add: form_decode_id)
  then show ?thesis unfolding form_params_def sp r by simp
qed

lemma received_sendMessage:
  assumes q: "CHR ''?'' \<notin> set token" and h: "CHR ''#'' \<notin> set token"
  shows "received_text token (SendMessage c t)
           = Some (form_decode (takeWhile (\<lambda>x. x \<noteq> CHR ''&'') (takeWhile (\<lambda>x. x \<noteq> CHR ''#'')
                    (filter (\<lambda>x. \<not> url_noise x) (rev (dropWhile c0_space (rev t)))))))"
proof -
  define p where "p = ''https://api.telegram.org/bot'' @ token @ ''/sendMessage?chat_id='' @ js_int_str c @ ''&text=''"
  define r where "r = filter (\<lambda>x. \<not> url_noise x) (rev (dropWhile c0_space (rev t)))"
  define tk where "tk = filter (\<lambda>x. \<not> url_noise x) token"
  have url: "req_url (api_request token (SendMessage c t)) = p @ t"
    by (simp add: p_def api_request_def sendMessage_def api_url_def Let_def)
  have front: "dropWhile c0_space (p @ t) = p @ t" by (simp add: p_def c0_space_def)
  have bk: "rev (dropWhile c0_space (rev (p @ t))) = p @ rev (dropWhile c0_space (rev t))"
    by (rule strip_end_append) (simp_all add: p_def c0_space_def)
  have fp: "filter (\<lambda>x. \<not> url_noise x) p = ''https://api.telegram.org/bot'' @ tk @ ''/sendMessage?chat_id='' @ js_int_str c @ ''&text=''"
    using js_int_str_filter [of "\<lambda>x. \<not> url_noise x" c] by (simp add: p_def tk_def url_noise_def)
  have clean: "url_clean (p @ t) = ''https://api.telegram.org/bot'' @ tk @ ''/sendMessage?chat_id='' @ js_int_str c @ ''&text='' @ r"
    unfolding url_clean_def front bk filter_append fp r_def by simp
  have tkq: "CHR ''?'' \<notin> set tk" "CHR ''#'' \<notin> set tk" using q h by (auto simp: tk_def)
  have nh: "CHR ''#'' \<notin> set (js_int_str c)" "CHR ''&'' \<notin> set (js_int_str c)" using js_int_str_plain by blast+
  have ball: "\<forall>x\<in>set tk. x \<noteq> CHR ''#''" "\<forall>x\<in>set tk. x \<noteq> CHR ''?''" "\<forall>x\<in>set (js_int_str c). x \<noteq> CHR ''#''"
    using tkq nh(1) by blast+
  have tw: "takeWhile (\<lambda>x. x \<noteq> CHR ''#'') (''https://api.telegram.org/bot'' @ tk @ ''/sendMessage?chat_id='' @ js_int_str c @ ''&text='' @ r)
      = ''https://api.telegram.org/bot'' @ tk @ ''/sendMessage?chat_id='' @ js_int_str c @ ''&text='' @ takeWhile (\<lambda>x. x \<noteq> CHR ''#'') r"
    using ball by (simp add: takeWhile_append2)
  have dw: "drop 1 (dropWhile (\<lambda>x. x \<noteq> CHR ''?'') (''https://api.telegram.org/bot'' @ tk @ ''/sendMessage?chat_id='' @ js_int_str c @ ''&text='' @ takeWhile (\<lambda>x. x \<noteq> CHR ''#'') r))
      = ''chat_id='' @ js_int_str c @ ''&text='' @ takeWhile (\<lambda>x. x \<noteq> CHR ''#'') r"
    using ball by (simp add: dropWhile_append2)
  have query: "url_query (url_clean (p @ t)) = ''chat_id='' @ js_int_str c @ ''&text='' @ takeWhile (\<lambda>x. x \<noteq> CHR ''#'') r"
    unfolding url_query_def clean tw dw ..
  obtain rest where fps: "form_params (url_query (url_clean (p @ t)))
      = (form_decode (takeWhile (\<lambda>c. c \<noteq> CHR ''='') (''chat_id='' @ js_int_str c)),
         form_decode (drop 1 (dropWhile (\<lambda>c. c \<noteq> CHR ''='') (''chat_id='' @ js_int_str c))))
        # (''text'', form_decode (takeWhile (\<lambda>x. x \<noteq> CHR ''&'') (takeWhile (\<lambda>x. x \<noteq> CHR ''#'') r))) # rest"
    using form_params_text [OF nh(2)] unfolding query by blast
  have "form_decode (takeWhile (\<lambda>c. c \<noteq> CHR ''='') (''chat_id='' @ js_int_str c)) = ''chat_id''"
    by (simp add: form_decode_id)
  then show ?thesis
    by (simp add: received_text_def query_param_def url fps r_def)
qed

lemma strip_end_id: "t = [] \<or> \<not> P (last t) \<Longrightarrow> rev (dropWhile P (rev t)) = t"
  by (cases t rule: rev_cases) auto

text \<open>C23: A reply sent with sendMessage whose text has no &, #, + or % and does not end in a space or control character reaches Telegram as that text with every tab and line break removed.\<close>

theorem received_text_plain:
  assumes "CHR ''?'' \<notin> set token" and "CHR ''#'' \<notin> set token"
    and plain: "\<forall>x\<in>set t. x \<notin> {CHR ''&'', CHR ''#'', CHR ''+'', CHR ''%''}"
    and "t = [] \<or> \<not> c0_space (last t)"
  shows "received_text token (SendMessage c t) = Some (filter (\<lambda>x. \<not> url_noise x) t)"
proof -
  let ?f = "filter (\<lambda>x. \<not> url_noise x) t"
  have "\<forall>x\<in>set ?f. x \<notin> {CHR ''&'', CHR ''#'', CHR ''+'', CHR ''%''}" using plain by auto
  then have t1: "takeWhile (\<lambda>x. x \<noteq> CHR ''#'') ?f = ?f" and t2: "takeWhile (\<lambda>x. x \<noteq> CHR ''&'') ?f = ?f"
    and "CHR ''%'' \<notin> set ?f" "CHR ''+'' \<notin> set ?f" unfolding takeWhile_eq_all_conv by blast+
  then have fd: "form_decode ?f = ?f" by (intro form_decode_id)
  show ?thesis
    by (simp only: received_sendMessage [OF assms(1,2), of c t] strip_end_id [where P = c0_space, OF assms(4)] t1 t2 fd)
qed

text \<open>C24: A reply sent with sendMessage whose text contains & reaches Telegram cut at the first &, since the text is put into the query string unencoded.\<close>

theorem received_text_amp:
  assumes "CHR ''?'' \<notin> set token" and "CHR ''#'' \<notin> set token"
    and plain: "\<forall>x\<in>set a. x \<notin> {CHR ''&'', CHR ''#'', CHR ''+'', CHR ''%''}"
  shows "received_text token (SendMessage c (a @ CHR ''&'' # b)) = Some (filter (\<lambda>x. \<not> url_noise x) a)"
proof -
  let ?f = "filter (\<lambda>x. \<not> url_noise x) a"
  let ?g = "filter (\<lambda>x. \<not> url_noise x) (rev (dropWhile c0_space (rev b)))"
  have st: "rev (dropWhile c0_space (rev (a @ CHR ''&'' # b))) = a @ CHR ''&'' # rev (dropWhile c0_space (rev b))"
    using strip_end_append [of "a @ [CHR ''&'']" c0_space b] by (simp add: c0_space_def)
  have nf: "\<forall>x\<in>set ?f. x \<notin> {CHR ''&'', CHR ''#'', CHR ''+'', CHR ''%''}" using plain by auto
  have "takeWhile (\<lambda>x. x \<noteq> CHR ''#'') (?f @ CHR ''&'' # ?g) = ?f @ takeWhile (\<lambda>x. x \<noteq> CHR ''#'') (CHR ''&'' # ?g)"
    by (rule takeWhile_append2) (use nf in blast)
  then have "takeWhile (\<lambda>x. x \<noteq> CHR ''#'') (?f @ CHR ''&'' # ?g) = ?f @ CHR ''&'' # takeWhile (\<lambda>x. x \<noteq> CHR ''#'') ?g"
    by simp
  moreover have "takeWhile (\<lambda>x. x \<noteq> CHR ''&'') (?f @ CHR ''&'' # takeWhile (\<lambda>x. x \<noteq> CHR ''#'') ?g)
      = ?f @ takeWhile (\<lambda>x. x \<noteq> CHR ''&'') (CHR ''&'' # takeWhile (\<lambda>x. x \<noteq> CHR ''#'') ?g)"
    by (rule takeWhile_append2) (use nf in blast)
  moreover have "form_decode ?f = ?f" using nf by (intro form_decode_id) auto
  ultimately show ?thesis
    using received_sendMessage [OF assms(1,2), of c "a @ CHR ''&'' # b"] st by (simp add: url_noise_def)
qed

end
