(* ===== verification/Worker.thy ===== *)
theory Worker
  imports Telegram Sweep
begin

text \<open>
  The Cloudflare Workers entry points of \<open>src/index.ts\<close>. \<open>fetch\<close> answers a webhook
  request from Telegram: a POST whose JSON body holds an update with a message is
  authenticated by the \<open>X-Telegram-Bot-Api-Secret-Token\<close> header and handed to
  \<open>Bot.exec\<close>; anything else is answered without touching the state. A body that is not
  JSON makes \<open>request.json()\<close> throw out of the handler (\<open>Inl\<close>). \<open>exec\<close> catches every
  error of the handlers, so the \<open>500\<close> branch is reached only when the error reply itself
  fails, which the model does not include. \<open>scheduled\<close> runs \<open>Bot.fetchAll\<close>.
\<close>

record worker_env =
  TELEGRAM_TOKEN :: string
  SECRET_TOKEN :: string

datatype payload = BodyNotJson | BodyNull | BodyUpdate "message option"

record request =
  rq_method :: string
  rq_secret :: "string option"
  rq_body :: payload

datatype response = Response nat string

datatype worker_error = JsonSyntaxError

definition worker_fetch ::
  "date_parser \<Rightarrow> network \<Rightarrow> (nat \<Rightarrow> timestamp) \<Rightarrow> string \<Rightarrow> worker_env \<Rightarrow> request \<Rightarrow> cmd_state
     \<Rightarrow> worker_error + response \<times> cmd_state" where
  "worker_fetch pd net clk terr env rq st =
     (if rq_method rq = ''POST'' then
        (case rq_body rq of
           BodyNotJson \<Rightarrow> Inl JsonSyntaxError
         | BodyNull \<Rightarrow> Inr (Response 400 ''Bad request'', st)
         | BodyUpdate None \<Rightarrow> Inr (Response 400 ''Bad request'', st)
         | BodyUpdate (Some m) \<Rightarrow>
             (if rq_secret rq = None \<or> rq_secret rq \<noteq> Some (SECRET_TOKEN env)
              then Inr (Response 401 ''Unauthorized'', st)
              else Inr (Response 200 ''OK'', exec pd net clk terr m st)))
      else Inr (Response 200 ''Hello world!'', st))"

definition worker_scheduled ::
  "date_parser \<Rightarrow> network \<Rightarrow> (nat \<Rightarrow> timestamp) \<Rightarrow> string list \<Rightarrow> cmd_state \<Rightarrow> cmd_state option" where
  "worker_scheduled pd net clk names st = map_option (\<lambda>b. st\<lparr>bot := b\<rparr>) (fetchAll pd net clk names (bot st))"

text \<open>C20: A webhook request without the right secret-token header never changes the bot state, whatever its method and body.\<close>

theorem worker_fetch_unauthenticated:
  assumes "rq_secret rq \<noteq> Some (SECRET_TOKEN env)" and "worker_fetch pd net clk terr env rq st = Inr (r, st')"
  shows "st' = st"
  using assms by (auto simp: worker_fetch_def split: if_splits payload.splits option.splits)

theorem worker_fetch_exec:
  assumes "rq_method rq = ''POST''" and "rq_body rq = BodyUpdate (Some m)" and "rq_secret rq = Some (SECRET_TOKEN env)"
  shows "worker_fetch pd net clk terr env rq st = Inr (Response 200 ''OK'', exec pd net clk terr m st)"
  using assms by (simp add: worker_fetch_def)

lemma worker_fetch_no_message:
  "rq_method rq = ''POST'' \<Longrightarrow> rq_body rq = BodyUpdate None \<Longrightarrow>
   worker_fetch pd net clk terr env rq st = Inr (Response 400 ''Bad request'', st)"
  by (simp add: worker_fetch_def)

end
