(* ===== verification/Format.thy ===== *)
theory Format
  imports Exec JsText "HOL-Library.Sublist"
begin

text \<open>
  \<open>formatPost\<close>, \<open>decodeHtml\<close> and \<open>filterTags\<close> of \<open>src/render.ts\<close>, the HTML
  rendering the source keeps for reference (marked FIXME, called nowhere). The global
  replacements are modelled as the left-to-right scans \<open>String.prototype.replace\<close>
  does with a \<open>g\<close> regular expression: after a match the scan resumes at its end, after
  a failed position at the next character. The tag pattern is built by
  \<open>new RegExp(`<\/?(?!\/?(${...})\s*\/?>)[^>]*>`, 'g')\<close> from a template literal,
  whose cooked value turns the escapes \<open>\/\<close> into \<open>/\<close> and \<open>\s\<close> into a plain
  \<open>s\<close>: the regular expression is \<open></?(?!/?(a|b|...)s*/?>)[^>]*>\<close>, where
  \<open>s*\<close> is a run of the letter s, not of white space. It is written with its
  backtracking made explicit: the optional slash is tried first taken, then left, and
  the negative lookahead is a test.
\<close>

text \<open>\<open>text.replace(/lit/g, rep)\<close> for a literal pattern.\<close>

function replace_all :: "string \<Rightarrow> string \<Rightarrow> string \<Rightarrow> string" where
  "replace_all p r [] = []"
| "replace_all p r (c # cs) =
     (if p \<noteq> [] \<and> take (length p) (c # cs) = p then r @ replace_all p r (drop (length p) (c # cs))
      else c # replace_all p r cs)"
  by pat_completeness auto
termination
  by (relation "measure (\<lambda>(p, r, s). length s)") auto

text \<open>\<open>decodeHtml(html)\<close>: \<open>html.replace\<close> on \<open>undefined\<close> throws a \<open>TypeError\<close>.\<close>

definition decodeHtml :: "string option \<Rightarrow> render_error + string" where
  "decodeHtml html =
     (case html of
        None \<Rightarrow> Inl TypeError
      | Some h \<Rightarrow> Inr (replace_all ''&amp;'' ''&'' (replace_all ''&gt;'' ''>'' (replace_all ''&lt;'' ''<'' h))))"

text \<open>
  The reference: the XML escaping a feed applies to a text, \<open>enc E\<close> escaping the
  characters of \<open>E\<close> (\<open>encodeHtml\<close> escapes all three).
\<close>

definition entity :: "char \<Rightarrow> string" where
  "entity c = (if c = CHR ''&'' then ''&amp;'' else if c = CHR ''<'' then ''&lt;'' else ''&gt;'')"

definition enc :: "char set \<Rightarrow> string \<Rightarrow> string" where
  "enc E s = concat (map (\<lambda>c. if c \<in> E then entity c else [c]) s)"

definition encodeHtml :: "string \<Rightarrow> string" where
  "encodeHtml s = enc {CHR ''&'', CHR ''<'', CHR ''>''} s"

definition allowedTags :: "string list" where
  "allowedTags = [''a'', ''b'', ''i'', ''u'', ''ins'', ''code'', ''pre'', ''strong'', ''em'', ''s'', ''strike'', ''del'']"

text \<open>\<open>(a|b|...)s*/?>\<close> at the start of the text (\<open>s*\<close> greedy: the character after
  the run of s must be \<open>/\<close> or \<open>>\<close>, so giving back an s never helps).\<close>

definition tag_close :: "string \<Rightarrow> bool" where
  "tag_close u \<longleftrightarrow>
     (\<exists>t\<in>set allowedTags. take (length t) u = t \<and>
        (case dropWhile (\<lambda>c. c = CHR ''s'') (drop (length t) u) of
           c # r \<Rightarrow> c = CHR ''>'' \<or> (c = CHR ''/'' \<and> take 1 r = ''>'')
         | [] \<Rightarrow> False))"

text \<open>The lookahead body \<open>/?(a|b|...)s*/?>\<close>: the slash taken, or left.\<close>

definition allowed_ahead :: "string \<Rightarrow> bool" where
  "allowed_ahead u \<longleftrightarrow> (case u of c # v \<Rightarrow> c = CHR ''/'' \<and> tag_close v | [] \<Rightarrow> False) \<or> tag_close u"

text \<open>
  The length of the match of the tag pattern at the start of the text, if any: after
  \<open><\/?\<close> the lookahead must fail, then \<open>[^>]*>\<close> runs to the first \<open>>\<close>.
\<close>

definition tag_rest :: "nat \<Rightarrow> string \<Rightarrow> nat option" where
  "tag_rest k u =
     (if \<not> allowed_ahead u \<and> CHR ''>'' \<in> set u then Some (k + length (takeWhile (\<lambda>c. c \<noteq> CHR ''>'') u) + 1)
      else None)"

definition tag_match :: "string \<Rightarrow> nat option" where
  "tag_match s =
     (case s of
        c # t \<Rightarrow>
          (if c \<noteq> CHR ''<'' then None
           else case t of
                  d # u \<Rightarrow> (if d = CHR ''/'' then (case tag_rest 2 u of Some n \<Rightarrow> Some n | None \<Rightarrow> tag_rest 1 t)
                             else tag_rest 1 t)
                | [] \<Rightarrow> None)
      | [] \<Rightarrow> None)"

function filterTags :: "string \<Rightarrow> string" where
  "filterTags [] = []"
| "filterTags (c # cs) =
     (case tag_match (c # cs) of
        Some n \<Rightarrow> filterTags (drop n (c # cs))
      | None \<Rightarrow> c # filterTags cs)"
  by pat_completeness auto
termination
proof (relation "measure length")
  fix c cs n
  assume "tag_match (c # cs) = Some n"
  then have "0 < n" by (auto simp: tag_match_def tag_rest_def split: list.splits if_splits option.splits)
  then show "(drop n (c # cs), c # cs) \<in> measure length" by simp
qed auto

text \<open>\<open>str.slice(0, e)\<close>: a negative end counts from the end of the string.\<close>

definition js_slice_to :: "string \<Rightarrow> int \<Rightarrow> string" where
  "js_slice_to s e = (if e < 0 then take (nat (int (length s) + e)) s else take (nat e) s)"

definition truncate_desc :: "int \<Rightarrow> string \<Rightarrow> string" where
  "truncate_desc maxDescLength h =
     (if int (length h) > maxDescLength then js_slice_to h (maxDescLength - 3) @ ''...'' else h)"

definition formatPost :: "post \<Rightarrow> int \<Rightarrow> render_error + string" where
  "formatPost p maxDescLength =
     (case decodeHtml (description p) of
        Inl e \<Rightarrow> Inl e
      | Inr d \<Rightarrow>
          (let htmlDescription = truncate_desc maxDescLength (filterTags d);
               formattedMessage = ''<a href=\"'' @ js_str (link p) @ ''\"><b><u>'' @ js_str (title p) @ ''</u></b></a>'' @ [nl];
               hashtags = (case hashtags p of Some hs \<Rightarrow> ''#'' @ join_str '' #'' hs | None \<Rightarrow> [])
           in Inr (formattedMessage @ hashtags @ [nl, nl] @ htmlDescription)))"

subsection \<open>The entity round trip\<close>

lemma replace_all_Nil_pat [simp]: "replace_all [] r s = s"
  by (induction s) auto

lemma replace_all_skip:
  "p \<noteq> [] \<Longrightarrow> hd p \<notin> set xs \<Longrightarrow> replace_all p r (xs @ ys) = xs @ replace_all p r ys"
proof (induction xs)
  case (Cons x xs)
  then have "take (length p) (x # xs @ ys) \<noteq> p" by (cases p) auto
  with Cons show ?case by simp
qed simp

lemma replace_all_hit:
  "p \<noteq> [] \<Longrightarrow> replace_all p r (p @ ys) = r @ replace_all p r ys"
  by (cases p) auto

lemma enc_Cons: "enc E (c # s) = (if c \<in> E then entity c else [c]) @ enc E s"
  by (simp add: enc_def)

lemma replace_entity:
  assumes sub: "E \<subseteq> {CHR ''&'', CHR ''<'', CHR ''>''}" and amp: "CHR ''&'' \<in> E" and d: "d \<in> E"
    and last: "d = CHR ''&'' \<Longrightarrow> E = {CHR ''&''}"
  shows "replace_all (entity d) [d] (enc E s) = enc (E - {d}) s"
proof (induction s)
  case Nil
  then show ?case by (simp add: enc_def)
next
  case (Cons c s)
  have ne: "entity d \<noteq> []" and hd: "hd (entity d) = CHR ''&''" by (simp_all add: entity_def)
  show ?case
  proof (cases "c \<in> E")
    case True
    show ?thesis
    proof (cases "c = d")
      case True
      with \<open>c \<in> E\<close> Cons show ?thesis by (simp add: enc_Cons replace_all_hit [OF ne])
    next
      case False
      with \<open>c \<in> E\<close> sub last d have cd: "(c = CHR ''&'' \<or> c = CHR ''<'' \<or> c = CHR ''>'') \<and> (d = CHR ''<'' \<or> d = CHR ''>'')"
        by auto
      then obtain t where t: "entity c = CHR ''&'' # t" and "CHR ''&'' \<notin> set t"
        and miss: "take (length (entity d)) (entity c @ enc E s) \<noteq> entity d"
        using False by (auto simp: entity_def)
      then have "replace_all (entity d) [d] (entity c @ enc E s) = CHR ''&'' # t @ replace_all (entity d) [d] (enc E s)"
        using replace_all_skip [OF ne, of t] ne hd by (simp add: t)
      with \<open>c \<in> E\<close> False Cons t show ?thesis by (simp add: enc_Cons)
    qed
  next
    case False
    with amp have "c \<noteq> CHR ''&''" by auto
    with False Cons ne hd show ?thesis
      using replace_all_skip [OF ne, of "[c]"] by (simp add: enc_Cons)
  qed
qed

lemma enc_empty: "enc {} s = s"
  by (induction s) (simp_all add: enc_def)

text \<open>C29: decodeHtml inverts the XML escaping of &, < and >: the order of its three replacements (&amp; last) decodes every escaped text exactly once.\<close>

theorem decodeHtml_encodeHtml: "decodeHtml (Some (encodeHtml s)) = Inr s"
proof -
  have lt: "replace_all ''&lt;'' ''<'' (enc {CHR ''&'', CHR ''<'', CHR ''>''} s) = enc {CHR ''&'', CHR ''>''} s"
    using replace_entity [of "{CHR ''&'', CHR ''<'', CHR ''>''}" "CHR ''<''" s] by (simp add: entity_def insert_Diff_if)
  have gt: "replace_all ''&gt;'' ''>'' (enc {CHR ''&'', CHR ''>''} s) = enc {CHR ''&''} s"
    using replace_entity [of "{CHR ''&'', CHR ''>''}" "CHR ''>''" s] by (simp add: entity_def insert_Diff_if)
  have amp: "replace_all ''&amp;'' ''&'' (enc {CHR ''&''} s) = s"
    using replace_entity [of "{CHR ''&''}" "CHR ''&''" s] by (simp add: entity_def enc_empty)
  show ?thesis by (simp add: decodeHtml_def encodeHtml_def lt gt amp)
qed

subsection \<open>The tag filter\<close>

lemma tag_match_not_lt: "c \<noteq> CHR ''<'' \<Longrightarrow> tag_match (c # cs) = None"
  by (simp add: tag_match_def)

lemma filterTags_plain: "CHR ''<'' \<notin> set xs \<Longrightarrow> filterTags (xs @ s) = xs @ filterTags s"
  by (induction xs) (auto simp: tag_match_not_lt)

lemma tag_close_allowed: "t \<in> set allowedTags \<Longrightarrow> tag_close (t @ replicate n CHR ''s'' @ CHR ''>'' # s)"
  unfolding tag_close_def by (rule bexI [of _ t]) (simp_all add: dropWhile_append3)

lemma allowed_tag_chars: "t \<in> set allowedTags \<Longrightarrow> CHR ''<'' \<notin> set t \<and> CHR ''>'' \<notin> set t \<and> CHR ''/'' \<notin> set t"
  by (auto simp: allowedTags_def)

lemma tag_match_allowed:
  assumes "t \<in> set allowedTags"
  shows "tag_match (CHR ''<'' # t @ replicate n CHR ''s'' @ CHR ''>'' # s) = None"
    "tag_match (CHR ''<'' # CHR ''/'' # t @ replicate n CHR ''s'' @ CHR ''>'' # s) = None"
proof -
  have tc: "tag_close (t @ replicate n CHR ''s'' @ CHR ''>'' # s)" by (rule tag_close_allowed [OF assms])
  have ne: "t \<noteq> [] \<and> hd t \<noteq> CHR ''/''" using assms allowed_tag_chars [OF assms] by (auto simp: allowedTags_def)
  then obtain x t' where t: "t = x # t'" and x: "x \<noteq> CHR ''/''" by (cases t) auto
  show "tag_match (CHR ''<'' # t @ replicate n CHR ''s'' @ CHR ''>'' # s) = None"
    using tc t x by (simp add: tag_match_def tag_rest_def allowed_ahead_def)
  show "tag_match (CHR ''<'' # CHR ''/'' # t @ replicate n CHR ''s'' @ CHR ''>'' # s) = None"
    using tc by (simp add: tag_match_def tag_rest_def allowed_ahead_def)
qed

text \<open>C30: filterTags keeps an allowed tag written <t>, </t>, or with a run of the letter s before > (<bs>, </bsss>), and goes on after it: the template literal cooks the pattern's \s* to s*.\<close>

theorem filterTags_keeps_allowed:
  assumes "t \<in> set allowedTags"
  shows "filterTags (CHR ''<'' # t @ replicate n CHR ''s'' @ CHR ''>'' # s) = CHR ''<'' # t @ replicate n CHR ''s'' @ CHR ''>'' # filterTags s
       \<and> filterTags (CHR ''<'' # CHR ''/'' # t @ replicate n CHR ''s'' @ CHR ''>'' # s) = CHR ''<'' # CHR ''/'' # t @ replicate n CHR ''s'' @ CHR ''>'' # filterTags s"
proof -
  have p: "CHR ''<'' \<notin> set (t @ replicate n CHR ''s'' @ [CHR ''>''])"
    "CHR ''<'' \<notin> set (CHR ''/'' # t @ replicate n CHR ''s'' @ [CHR ''>''])"
    using allowed_tag_chars [OF assms] by auto
  show ?thesis
    using tag_match_allowed [OF assms] filterTags_plain [OF p(1), of s] filterTags_plain [OF p(2), of s] by simp
qed

lemma tag_match_other:
  assumes no: "\<not> allowed_ahead (u @ CHR ''>'' # s)" and gt: "CHR ''>'' \<notin> set u"
  shows "tag_match (CHR ''<'' # u @ CHR ''>'' # s) = Some (length u + 2)"
proof -
  have tw: "takeWhile (\<lambda>c. c \<noteq> CHR ''>'') (u @ CHR ''>'' # s) = u @ takeWhile (\<lambda>c. c \<noteq> CHR ''>'') (CHR ''>'' # s)"
    by (rule takeWhile_append2) (use gt in blast)
  have one: "tag_rest 1 (u @ CHR ''>'' # s) = Some (length u + 2)"
    using no tw by (simp add: tag_rest_def)
  show ?thesis
  proof (cases u)
    case Nil
    then show ?thesis using one by (simp add: tag_match_def)
  next
    case (Cons d v)
    have "takeWhile (\<lambda>c. c \<noteq> CHR ''>'') (v @ CHR ''>'' # s) = v @ takeWhile (\<lambda>c. c \<noteq> CHR ''>'') (CHR ''>'' # s)"
      by (rule takeWhile_append2) (use gt Cons in auto)
    then have "tag_rest 2 (v @ CHR ''>'' # s) = None \<or> tag_rest 2 (v @ CHR ''>'' # s) = Some (length u + 2)"
      using Cons by (simp add: tag_rest_def)
    with one Cons show ?thesis by (auto simp: tag_match_def split: option.split)
  qed
qed

text \<open>C31: filterTags deletes a whole tag <...> whose text after < is not an allowed tag name followed by a run of the letter s, an optional slash and >: attributes of an allowed tag are deleted with it, and so is <b > with a space.\<close>

theorem filterTags_removes:
  assumes "\<not> allowed_ahead (u @ CHR ''>'' # s)" and "CHR ''>'' \<notin> set u"
  shows "filterTags (CHR ''<'' # u @ CHR ''>'' # s) = filterTags s"
  using tag_match_other [OF assms] by simp

subsection \<open>Truncation\<close>

text \<open>C32: With maxDescLength at least 3 the description formatPost keeps, ellipsis included, is at most maxDescLength characters long.\<close>

theorem truncate_desc_bound:
  assumes "3 \<le> maxDescLength"
  shows "int (length (truncate_desc maxDescLength h)) \<le> maxDescLength"
  using assms by (auto simp: truncate_desc_def js_slice_to_def)

lemma truncate_desc_short: "truncate_desc 2 ''abcdef'' = ''abcde...''"
  by (simp add: truncate_desc_def js_slice_to_def)

end
