(* ===== verification/Concurrency.thy ===== *)
theory Concurrency
  imports Store
begin

text \<open>
  The store methods of \<open>src/store.ts\<close> as they run on the Workers runtime: each one
  awaits \<open>this.get(userId)\<close>, computes the new user from that snapshot, and awaits
  \<open>this.set(user)\<close>. Requests of different webhook calls and of the cron sweep run
  concurrently, so other writes can land between a method's read and its write.
  \<open>op_snapshot\<close> is the read, \<open>op_write\<close> the computation from the snapshot (or the
  error it throws); the system state is the KV and the operations that have read and
  not yet written, and \<open>cstep\<close> starts an operation or lets any running one finish.
  \<open>UpdateSubscriptions\<close> reads nothing: its user is the object the fan-out read earlier.
\<close>

definition op_user :: "store_op \<Rightarrow> int" where
  "op_user op =
     (case op of AddUser i \<Rightarrow> i | AddSubscription i c u \<Rightarrow> i | DeleteSubscription i u \<Rightarrow> i
      | DeleteAllSubscriptionsInChat i c \<Rightarrow> i | UpdateSubscriptions user upd \<Rightarrow> uid user)"

definition op_snapshot :: "kv \<Rightarrow> store_op \<Rightarrow> user" where
  "op_snapshot db op =
     (case op of
        AddUser i \<Rightarrow> newUser i
      | AddSubscription i c u \<Rightarrow> get_or_new db i
      | DeleteSubscription i u \<Rightarrow> get_or_new db i
      | DeleteAllSubscriptionsInChat i c \<Rightarrow> get_or_new db i
      | UpdateSubscriptions user upd \<Rightarrow> user)"

definition op_write :: "store_op \<Rightarrow> user \<Rightarrow> store_error + user" where
  "op_write op user =
     (case op of
        AddUser i \<Rightarrow> Inr user
      | AddSubscription i c u \<Rightarrow>
          (if find (\<lambda>s. url s = u) (subscriptions user) \<noteq> None then Inl AlreadySubscribed
           else Inr (user\<lparr>subscriptions := subscriptions user @ [newSubscription c u]\<rparr>))
      | DeleteSubscription i u \<Rightarrow>
          (if find (\<lambda>s. url s = u) (subscriptions user) = None then Inl NotSubscribed
           else Inr (user\<lparr>subscriptions := filter (\<lambda>s. url s \<noteq> u) (subscriptions user)\<rparr>))
      | DeleteAllSubscriptionsInChat i c \<Rightarrow> Inr (user\<lparr>subscriptions := filter (\<lambda>s. chatId s \<noteq> c) (subscriptions user)\<rparr>)
      | UpdateSubscriptions u upd \<Rightarrow> Inr (user\<lparr>subscriptions := replace_by_key url upd (subscriptions user)\<rparr>))"

record csys =
  ckv :: kv
  running :: "(store_op \<times> user) list"

inductive cstep :: "csys \<Rightarrow> csys \<Rightarrow> bool" where
  start_op: "op_pre op \<Longrightarrow> cstep s (s\<lparr>running := running s @ [(op, op_snapshot (ckv s) op)]\<rparr>)"
| commit_ok: "k < length (running s) \<Longrightarrow> running s ! k = (op, u) \<Longrightarrow> op_write op u = Inr u' \<Longrightarrow>
    cstep s \<lparr>ckv = store_set (ckv s) u', running = take k (running s) @ drop (Suc k) (running s)\<rparr>"
| commit_err: "k < length (running s) \<Longrightarrow> running s ! k = (op, u) \<Longrightarrow> op_write op u = Inl e \<Longrightarrow>
    cstep s (s\<lparr>running := take k (running s) @ drop (Suc k) (running s)\<rparr>)"

inductive_cases cstep_cases: "cstep s s'"

definition csys_inv :: "csys \<Rightarrow> bool" where
  "csys_inv s \<longleftrightarrow> store_inv (ckv s) \<and> list_all (\<lambda>(op, u). uid u = op_user op \<and> user_ok u) (running s)"

subsection \<open>The split is faithful\<close>

lemma store_step_split:
  "store_step db op = (case op_write op (op_snapshot db op) of Inl e \<Rightarrow> Inl e | Inr u \<Rightarrow> Inr (store_set db u))"
  by (cases op) (simp_all add: op_write_def op_snapshot_def addUser_def addSubscription_def deleteSubscription_def
      deleteAllSubscriptionsInChat_def updateSubscriptions_def Let_def)

lemma newUser_ok: "user_ok (newUser i)"
  by (simp add: user_ok_def)

lemma snapshot_ok:
  "store_inv db \<Longrightarrow> op_pre op \<Longrightarrow> uid (op_snapshot db op) = op_user op \<and> user_ok (op_snapshot db op)"
  by (cases op) (auto simp: op_snapshot_def op_user_def get_or_new_uid get_or_new_ok newUser_ok)

lemma write_ok:
  assumes "op_write op u = Inr u'" and "user_ok u"
  shows "uid u' = uid u \<and> user_ok u'"
proof (cases op)
  case (AddSubscription i c v)
  with assms show ?thesis
    by (auto simp: op_write_def user_ok_def find_None_iff split: if_splits)
next
  case (UpdateSubscriptions w upd)
  with assms show ?thesis
    using replace_by_key_keys [of url upd "subscriptions u"] by (auto simp: op_write_def user_ok_def)
qed (use assms in \<open>auto simp: op_write_def user_ok_filter split: if_splits\<close>)

lemma list_all_remove:
  "list_all P xs \<Longrightarrow> list_all P (take k xs)" "list_all P xs \<Longrightarrow> list_all P (drop k xs)"
  by (auto simp: list_all_iff dest: in_set_takeD in_set_dropD)

lemma cstep_inv: "cstep s s' \<Longrightarrow> csys_inv s \<Longrightarrow> csys_inv s'"
proof (induction rule: cstep.induct)
  case (start_op op s)
  then show ?case using snapshot_ok [of "ckv s" op] by (simp add: csys_inv_def)
next
  case (commit_ok k s op u u')
  from commit_ok have "(op, u) \<in> set (running s)" by (metis nth_mem)
  with commit_ok.prems have "uid u = op_user op \<and> user_ok u" by (auto simp: csys_inv_def list_all_iff)
  with write_ok [OF commit_ok.hyps(3)] have "user_ok u'" by blast
  with commit_ok.prems show ?case by (simp add: csys_inv_def store_inv_set list_all_remove)
next
  case (commit_err k s op u e)
  then show ?case by (simp add: csys_inv_def list_all_remove)
qed

text \<open>C9: Under any interleaving of concurrently running store methods (each reading the user, then writing its result), every reachable KV keeps the store invariant and every pending write is of a well-formed user.\<close>

theorem cstep_reachable_inv:
  "cstep\<^sup>*\<^sup>* s s' \<Longrightarrow> csys_inv s \<Longrightarrow> csys_inv s'"
  by (induction rule: rtranclp_induct) (auto intro: cstep_inv)

lemma cstep_start:
  "op_pre op \<Longrightarrow> cstep \<lparr>ckv = db, running = rs\<rparr> \<lparr>ckv = db, running = rs @ [(op, op_snapshot db op)]\<rparr>"
  using cstep.start_op [of op "\<lparr>ckv = db, running = rs\<rparr>"] by simp

lemma cstep_commit_first:
  "op_write op u = Inr u' \<Longrightarrow> cstep \<lparr>ckv = db, running = (op, u) # rs\<rparr> \<lparr>ckv = store_set db u', running = rs\<rparr>"
  using cstep.commit_ok [of 0 "\<lparr>ckv = db, running = (op, u) # rs\<rparr>" op u u'] by simp

text \<open>C10: For any store satisfying the invariant and two distinct URLs new to user i, the interleaving in which /sub a and /sub b both read the user before either writes is a run of the concurrent store: /sub a's write lands (the KV holds the user with a appended) and then /sub b's write replaces the record with the snapshot plus b only, so a is lost, while the sequential store_run of the same two operations keeps both.\<close>

theorem cstep_lost_subscribe:
  assumes inv: "store_inv db" and ab: "a \<noteq> b"
    and na: "a \<notin> set (map url (subscriptions (get_or_new db i)))"
    and nb: "b \<notin> set (map url (subscriptions (get_or_new db i)))"
  shows "cstep\<^sup>*\<^sup>* \<lparr>ckv = db, running = []\<rparr>
           \<lparr>ckv = db(i \<mapsto> (get_or_new db i)\<lparr>subscriptions := subscriptions (get_or_new db i) @ [newSubscription c a]\<rparr>),
            running = [(AddSubscription i c' b, get_or_new db i)]\<rparr>
     \<and> cstep \<lparr>ckv = db(i \<mapsto> (get_or_new db i)\<lparr>subscriptions := subscriptions (get_or_new db i) @ [newSubscription c a]\<rparr>),
              running = [(AddSubscription i c' b, get_or_new db i)]\<rparr>
           \<lparr>ckv = db(i \<mapsto> (get_or_new db i)\<lparr>subscriptions := subscriptions (get_or_new db i) @ [newSubscription c' b]\<rparr>),
            running = []\<rparr>
     \<and> a \<notin> set (map url (subscriptions (get_or_new db i) @ [newSubscription c' b]))
     \<and> store_run db [AddSubscription i c a, AddSubscription i c' b]
       = db(i \<mapsto> (get_or_new db i)\<lparr>subscriptions := subscriptions (get_or_new db i) @ [newSubscription c a, newSubscription c' b]\<rparr>)"
proof -
  let ?u = "get_or_new db i" and ?A = "AddSubscription i c a" and ?B = "AddSubscription i c' b"
  let ?ua = "?u\<lparr>subscriptions := subscriptions ?u @ [newSubscription c a]\<rparr>"
  let ?ub = "?u\<lparr>subscriptions := subscriptions ?u @ [newSubscription c' b]\<rparr>"
  have uid: "uid ?u = i" by (rule get_or_new_uid [OF inv])
  have snap: "op_snapshot db ?A = ?u" "op_snapshot db ?B = ?u" by (simp_all add: op_snapshot_def)
  have wa: "op_write ?A ?u = Inr ?ua" using na by (auto simp: op_write_def find_None_iff)
  have wb: "op_write ?B ?u = Inr ?ub" using nb by (auto simp: op_write_def find_None_iff)
  have 1: "cstep \<lparr>ckv = db, running = []\<rparr> \<lparr>ckv = db, running = [(?A, ?u)]\<rparr>"
    using cstep_start [of ?A db "[]"] snap by simp
  have 2: "cstep \<lparr>ckv = db, running = [(?A, ?u)]\<rparr> \<lparr>ckv = db, running = [(?A, ?u), (?B, ?u)]\<rparr>"
    using cstep_start [of ?B db "[(?A, ?u)]"] snap by simp
  have 3: "cstep \<lparr>ckv = db, running = [(?A, ?u), (?B, ?u)]\<rparr> \<lparr>ckv = db(i \<mapsto> ?ua), running = [(?B, ?u)]\<rparr>"
    using cstep_commit_first [OF wa, of db "[(?B, ?u)]"] uid by (simp add: store_set_def)
  have 4: "cstep \<lparr>ckv = db(i \<mapsto> ?ua), running = [(?B, ?u)]\<rparr> \<lparr>ckv = db(i \<mapsto> ?ub), running = []\<rparr>"
    using cstep_commit_first [OF wb, of "db(i \<mapsto> ?ua)" "[]"] uid by (simp add: store_set_def)
  from 1 2 3 have run: "cstep\<^sup>*\<^sup>* \<lparr>ckv = db, running = []\<rparr> \<lparr>ckv = db(i \<mapsto> ?ua), running = [(?B, ?u)]\<rparr>"
    by (meson converse_rtranclp_into_rtranclp r_into_rtranclp)
  have lost: "a \<notin> set (map url (subscriptions ?u @ [newSubscription c' b]))"
    using na ab by (simp add: newSubscription_def)
  have r1: "store_step db ?A = Inr (db(i \<mapsto> ?ua))"
    using wa snap uid by (simp add: store_step_split store_set_def)
  have sb: "op_snapshot (db(i \<mapsto> ?ua)) ?B = ?ua" by (simp add: op_snapshot_def get_or_new_def store_get_def)
  have "b \<notin> set (map url (subscriptions ?ua))" using nb ab by (simp add: newSubscription_def)
  then have "op_write ?B ?ua = Inr (?ua\<lparr>subscriptions := subscriptions ?ua @ [newSubscription c' b]\<rparr>)"
    by (auto simp: op_write_def find_None_iff)
  then have "store_step (db(i \<mapsto> ?ua)) ?B
      = Inr (db(i \<mapsto> ?u\<lparr>subscriptions := subscriptions ?u @ [newSubscription c a, newSubscription c' b]\<rparr>))"
    using sb uid by (simp add: store_step_split store_set_def)
  with r1 have "store_run db [?A, ?B] = db(i \<mapsto> ?u\<lparr>subscriptions := subscriptions ?u @ [newSubscription c a, newSubscription c' b]\<rparr>)"
    by simp
  with run 4 lost show ?thesis by blast
qed

end
