(* ===== verification/Spec2Isabelle.thy ===== *)
theory Spec2Isabelle
  imports Model Rss Updater Store Bot Render Command Exec JsText Sweep Telegram Worker Format Concurrency
begin

text \<open>
  \<^bold>\<open>telerss: the subscription update pipeline, verified.\<close>

  telerss is a Telegram bot (TypeScript, Cloudflare Workers) that keeps users' RSS
  subscriptions fresh. Its parts and how they interact:
  \<^item> \<open>src/model.ts\<close>, \<open>src/settings.ts\<close>: the data (subscription, user, post, update)
    and the constant \<open>defaultSettings\<close>. Theory \<open>Model\<close>: records with the source's
    fields; optional fields are \<open>option\<close>.
  \<^item> \<open>src/rss.ts\<close>, \<open>parseRSS\<close>: turns the DOM of a feed document into a channel (title
    plus items as string maps), throwing when there is not exactly one \<open><rss>\<close> or
    \<open><channel>\<close>. Theory \<open>Rss\<close>: the DOM as a datatype \<open>xnode\<close> (the XML text
    parser, the xmldom library, is not modelled: the model starts from its output),
    \<open>getElementsByTagName\<close> as a pre-order descendant filter, the parser with its two
    errors as \<open>Inl\<close>.
  \<^item> \<open>src/updater.ts\<close>: the module-level feed cache, \<open>fetchSubscriptionUpdates\<close>
    (cache lookup, conditional request, 304 short-cut, parse, cache store, diff, mutation
    of the subscription's watermark and entity tag), \<open>getNewPosts\<close> (filter strictly
    newer than the watermark, stable sort newest first, first-fetch truncation to 5) and
    \<open>fetchUpdates\<close> (a \<open>Promise.all\<close> batch). Theory \<open>Updater\<close>: the network,
    the date parser and the clock are parameters; the cache and the log of issued
    requests are the explicit state \<open>fetch_state\<close>. The fetcher is split at its
    \<open>await\<close> into \<open>fsu_begin\<close> (synchronous prefix) and \<open>fsu_resume\<close>
    (continuation); \<open>fetch_seq\<close> runs calls one after the other, \<open>fetch_batch\<close>
    runs all prefixes first, as \<open>Promise.all(subs.map(...))\<close> does.
  \<^item> \<open>src/store.ts\<close>, \<open>UserStore\<close>: users in a KV namespace keyed by id; adding and
    deleting subscriptions, and the merge-back \<open>updateSubscriptions\<close>. Theory
    \<open>Store\<close>: the KV as a map, one function per method, errors as \<open>Inl\<close>, the
    mutating methods as a datatype \<open>store_op\<close> with a step function, and the invariant
    \<open>store_inv\<close> (users under their own id, subscription URLs distinct per user).
  \<^item> \<open>src/store.ts\<close> under concurrency: each method awaits \<open>get\<close>, computes, and
    awaits \<open>set\<close>. Theory \<open>Concurrency\<close>: the inductive step relation \<open>cstep\<close> on the
    KV and the operations that have read and not yet written (\<open>op_snapshot\<close> is the
    read, \<open>op_write\<close> the rest of the method), in any interleaving.
  \<^item> \<open>src/bot.ts\<close>, \<open>Bot.updateUserSubscriptions\<close> and \<open>Bot.fetch\<close>: for one
    user (optionally one chat) fetch every subscription in an \<open>allSettled\<close> batch, try
    to send each post of a fulfilled update, merge the updates with posts back and
    write the user. Theory \<open>Bot\<close>: the user object read from the KV owns its
    subscription objects, which the fetcher mutates in place; the model makes this
    explicit with a heap of subscriptions and references (\<open>load_user\<close> is
    \<open>JSON.parse\<close>, allocating fresh objects; \<open>serialize\<close> is \<open>JSON.stringify\<close>),
    \<open>mutate\<close> writes each fulfilled update into its object, and the merge-back
    \<open>updateSubscriptions_obj\<close> compares and replaces through the heap, with the same
    \<open>replace_by_key\<close> as the value-level store. The bot state \<open>bot_state\<close> is the
    KV, the fetcher's state and the log of delivery attempts (chat, feed title, post).
  \<^item> \<open>src/render.ts\<close>, \<open>renderPost\<close>: the MarkdownV2 text of one post (bold header of
    feed and post title, link, optional hashtags, UTC date line), every piece escaped
    by \<open>escapeTg\<close>. Theory \<open>Render\<close>: the functions with their errors as \<open>Inl\<close>
    (\<open>escapeTg(undefined)\<close> throws a \<open>TypeError\<close>), the library function
    \<open>toISOString\<close> after ECMA-262, and Telegram's reading of the text (\<open>md_lex\<close>:
    which characters are literal and which are markup).
  \<^item> \<open>src/render.ts\<close>, \<open>formatPost\<close>, \<open>decodeHtml\<close>, \<open>filterTags\<close>: the HTML
    rendering kept for reference (marked FIXME, called nowhere). Theory \<open>Format\<close>: the
    global replacements as left-to-right scans, the tag pattern
    of the template literal \<open>`<\/?(?!\/?(${...})\s*\/?>)[^>]*>`\<close>, whose cooked value is
    \<open></?(?!/?(a|b|...)s*/?>)[^>]*>\<close> (\<open>\s\<close> becomes the letter s), with its
    backtracking made explicit, and
    \<open>slice\<close> with a negative end.
  \<^item> \<open>src/bot.ts\<close>, \<open>Command\<close>: the command of a message text, matched by
    \<open>/^\/(\w+)(?:\s+(.+))?$/\<close>. Theory \<open>Command\<close>: the regular expression as a datatype
    \<open>rx\<close> and ECMAScript's backtracking matcher \<open>mt\<close> (all results in priority order),
    \<open>re_exec\<close>, and a direct reading \<open>command_ref\<close> proved equal to it.
  \<^item> \<open>src/bot.ts\<close>, \<open>Bot.exec\<close> and the handlers \<open>help\<close>, \<open>subscribe\<close>,
    \<open>unsubscribe\<close>, \<open>unsubscribeAll\<close>, \<open>list\<close>, \<open>fetch\<close>, \<open>start\<close>. Theory \<open>Exec\<close>:
    the state \<open>cmd_state\<close> is the bot state and an outbox of Telegram API calls; a handler
    returns the new state or throws (\<open>Inl\<close>) before its first effect, and \<open>exec\<close>
    answers an error with \<open>Error: ${e}\<close>.
  \<^item> \<open>src/bot.ts\<close>, \<open>Bot.fetchAll\<close>, and \<open>src/store.ts\<close>, \<open>UserStore.listIds\<close>.
    Theory \<open>Sweep\<close>: the do-while over the pages of the KV listing as
    \<open>partial_function (option)\<close>; theory \<open>JsText\<close>: \<open>Number.prototype.toString\<close>,
    \<open>parseInt\<close> and \<open>split\<close> after ECMA-262, which write and read the key \<open>user:<id>\<close>.
  \<^item> \<open>src/telegram.ts\<close>, \<open>TelegramApi\<close>. Theory \<open>Telegram\<close>: the requests
    \<open>registerCommands\<close>, \<open>sendMessage\<close>, \<open>sendRichMessage\<close> build, and what Telegram
    reads back from the URL of \<open>sendMessage\<close> (WHATWG URL parsing and form decoding, a
    model of the runtime and the server).
  \<^item> \<open>src/index.ts\<close>, the Workers handlers \<open>fetch\<close> (webhook: method, body, secret
    token, \<open>exec\<close>) and \<open>scheduled\<close> (\<open>fetchAll\<close>). Theory \<open>Worker\<close>.

  What the lemmas show. Post differ (\<open>Updater\<close>): every returned post is strictly
  newer than the watermark; the result is in non-increasing date order; on a first
  fetch it has at most \<open>postsToLoadOnNewSub\<close> posts, none older than a dropped
  candidate; otherwise it is the unique stable descending sort of the candidates (the
  result of any engine's stable \<open>Array.prototype.sort\<close>). Fetcher: a cache hit issues no
  request and changes no state; a 304 leaves the subscription unchanged and yields no
  posts; a fresh feed advances the watermark to the fetch time and stores the feed;
  a transport or parse error is not cached; subscriptions sharing a URL fetched one
  after the other cause one request, while a batch issues a request for every
  subscription whose URL misses the cache when the batch starts. Store: every reachable store satisfies \<open>store_inv\<close>, merge-back
  is idempotent, adding a duplicate URL is rejected, adding a new one appends it,
  deleting removes exactly that URL.
  Bot: after \<open>updateUserSubscriptions\<close> every fulfilled subscription is stored with its
  advanced watermark and entity tag (the filter on \<open>posts.length > 0\<close> has no effect,
  because the objects are shared), a failed one is stored unchanged and retried, one
  delivery is attempted per post of a fulfilled update. Across the components (this theory): a run whose fetches all fail
  changes nothing; a subscribe committed while a fan-out is in flight is lost by its
  write-back; while a URL is cached its result ignores the network and the clock, and
  the watermark becomes the cached feed's fetch time, lower than before when the entry
  is older (\<open>Updater\<close>); a post title with a backslash before an asterisk ends the
  bold header early and the header reads \<open>feedTitle: title\<close>, not the
  \<open>{feedTitle} - {post.title}\<close> of the comment (\<open>Render\<close>); the
  scenarios of the specification evaluate on concrete feeds.

  Environment and bounds. Timestamps are JavaScript millisecond numbers; the values
  reaching the model are integral (\<open>Date.getTime\<close>, \<open>Date.now\<close>) and far below
  \<open>2^53\<close>, so they are \<open>int\<close> with no wrap-around; \<open>NaN\<close> is \<open>None\<close>. The network
  is a function from URL and conditional header to a response or a transport error.
  The examples below instantiate the environment concretely (dates of \<open>n\<close> characters
  are day \<open>n\<close>) for the witnesses.

  Concurrency: every KV reachable by any interleaving keeps \<open>store_inv\<close> (rule
  induction over \<open>cstep\<close>); for any store and any two URLs new to a user, the run in
  which two \<open>/sub\<close> read before either writes commits both, and the second write
  erases the first, where the sequential \<open>store_run\<close> keeps both. Format:
  \<open>decodeHtml\<close> inverts XML escaping; \<open>filterTags\<close> keeps an allowed tag followed by
  a run of the letter s (the cooked \<open>s*\<close>) and deletes any other tag whole, \<open><b >\<close>
  included; the
  description is at most \<open>maxDescLength\<close> long when that is at least 3.
  Commands (\<open>Command\<close>, \<open>Exec\<close>): the backtracking match equals the direct reading;
  a command name followed by a space and a URL parses back as that command and URL;
  every command keeps \<open>store_inv\<close>; every command but \<open>/fetch\<close> sends exactly one text
  reply to its chat; \<open>/sub\<close> of a new parseable feed appends the subscription and
  confirms it; \<open>/fetch\<close> sends no reply of its own; \<open>/start\<close> is answered with help and
  stores nothing; \<open>/list\<close> of an unknown user answers \<open>Error: Error: User not found.\<close>
  Sweep: \<open>fetchAll\<close> returns on every listing and, on keys \<open>user:<id>\<close>, visits every
  listed user once in order (\<open>parseInt\<close> reads back what \<open>${id}\<close> wrote). Telegram: a
  plain reply arrives with its line breaks removed, a reply with \<open>&\<close> arrives cut there.
  Worker: a request without the secret token changes nothing; an authenticated message
  is handed to \<open>exec\<close>.

  Not modelled: the text-to-DOM parser (the xmldom library), the HTTP exchange with
  Telegram and its JSON answers (the bot never reads the answer of \<open>sendMessage\<close>; the
  \<open>ok\<close> flag of \<open>sendRichMessage\<close> is a parameter of the fan-out), the failure of a
  send inside \<open>exec\<close>'s catch (the only way to reach the \<open>500\<close> answer), and the
  interleavings of concurrent users of one page of \<open>fetchAll\<close> other than the one in
  which each user completes before the next (\<open>Sweep\<close>; the interleavings of store
  reads and writes are those of \<open>Concurrency\<close>).
  Characters are Isabelle's 8-bit characters, the code units below 256 of a JavaScript
  string. The year of a date is found by a downward search whose fuel is the width of
  an interval proved to contain it (\<open>Render.year_from_day_bounds\<close>); \<open>fetchAll\<close> is a
  \<open>partial_function (option)\<close> whose termination is a theorem (the cursor advances by
  the listing limit of 1000).
\<close>

section \<open>Example environment\<close>

definition ex_dates :: date_parser where
  "ex_dates s = (if s = [] then None else Some (int (length s) * 86400000))"

definition ex_date :: "nat \<Rightarrow> string" where
  "ex_date d = replicate d (CHR ''d'')"

definition ex_item :: "nat \<Rightarrow> item" where
  "ex_item d = [''title'' \<mapsto> ''Post'', ''link'' \<mapsto> ''link'', ''pubDate'' \<mapsto> ex_date d]"

definition ex_post :: "nat \<Rightarrow> post" where
  "ex_post d = item_post (ex_item d) (int d * 86400000)"

definition ex_feed :: "nat list \<Rightarrow> cached_feed" where
  "ex_feed ds = \<lparr>feed_channel = \<lparr>chan_items = CItems (map ex_item ds), chan_fields = [''title'' \<mapsto> ''Feed'']\<rparr>,
                 feed_etag = Some ''etag2'', feed_lastFetched = 1000000000\<rparr>"

definition ex_sub :: "timestamp \<Rightarrow> subscription" where
  "ex_sub lf = \<lparr>chatId = 123, url = ''feed'', lastFetched = lf, etag = None, refreshRate = None\<rparr>"

definition ex_doc :: document where
  "ex_doc = [XElem ''rss'' [XElem ''channel''
     [XElem ''title'' [XText ''Feed''],
      XElem ''item'' [XElem ''title'' [XText ''Post''], XElem ''link'' [XText ''link''],
                      XElem ''pubDate'' [XText (ex_date 2)]],
      XElem ''item'' [XElem ''title'' [XText ''Post''], XElem ''pubDate'' [XText (ex_date 3)]],
      XElem ''item'' [XOther, XElem ''pubDate'' [XText (ex_date 1)]]]]]"

definition ex_net :: "nat \<Rightarrow> network" where
  "ex_net code u h = (if u = ''feed'' then Some \<lparr>status = code, resp_etag = Some ''etag2'', resp_body = ex_doc\<rparr> else None)"

definition ex_state :: "feed_cache \<Rightarrow> fetch_state" where
  "ex_state c = \<lparr>feedCache = c, requests = []\<rparr>"

definition ex_user :: user where
  "ex_user = \<lparr>uid = 7, subscriptions = [ex_sub 0], user_defaultRefreshRate = None, user_postsToLoadOnNewSub = None\<rparr>"

definition ex_channel :: channel where
  "ex_channel = \<lparr>chan_items = CItems [[''title'' \<mapsto> ''Post'', ''link'' \<mapsto> ''link'', ''pubDate'' \<mapsto> ex_date 2],
      [''title'' \<mapsto> ''Post'', ''pubDate'' \<mapsto> ex_date 3], [''pubDate'' \<mapsto> ex_date 1]],
   chan_fields = [''title'' \<mapsto> ''Feed'']\<rparr>"

definition ex_fresh_feed :: cached_feed where
  "ex_fresh_feed = \<lparr>feed_channel = ex_channel, feed_etag = Some ''etag2'', feed_lastFetched = 5\<rparr>"

definition ex_bot :: bot_state where
  "ex_bot = \<lparr>db = [7 \<mapsto> ex_user], fetcher = ex_state Map.empty, sent = []\<rparr>"

definition ex_user_b :: user where
  "ex_user_b = \<lparr>uid = 8, subscriptions = [(ex_sub 0)\<lparr>chatId := 9\<rparr>], user_defaultRefreshRate = None,
     user_postsToLoadOnNewSub = None\<rparr>"

definition ex_down :: network where
  "ex_down u h = None"

definition ex_untitled_doc :: document where
  "ex_untitled_doc = [XElem ''rss'' [XElem ''channel''
     [XElem ''item'' [XElem ''title'' [XText ''Post''], XElem ''link'' [XText ''link''], XElem ''pubDate'' [XText ''dd'']]]]]"

definition ex_net_untitled :: network where
  "ex_net_untitled u h = (if u = ''feed'' then Some \<lparr>status = 200, resp_etag = None, resp_body = ex_untitled_doc\<rparr> else None)"

definition ex_rpost :: "string \<Rightarrow> string list option \<Rightarrow> post" where
  "ex_rpost t hs = \<lparr>title = Some t, link = Some ''u'', description = None, pubDate = 0, hashtags = hs\<rparr>"

definition ex_msg :: "string \<Rightarrow> message" where
  "ex_msg t = \<lparr>msg_chat = 123, msg_from = Some 7, msg_text = Some t\<rparr>"

definition ex_cs :: cmd_state where
  "ex_cs = \<lparr>bot = ex_bot, outbox = []\<rparr>"

definition ex_env :: worker_env where
  "ex_env = \<lparr>TELEGRAM_TOKEN = ''123:AB'', SECRET_TOKEN = ''s3cret''\<rparr>"

lemmas ex_defs = ex_dates_def ex_date_def ex_item_def ex_post_def ex_feed_def ex_sub_def ex_doc_def
  ex_net_def ex_state_def ex_user_def ex_bot_def ex_user_b_def ex_down_def ex_fresh_feed_def
lemmas eval_defs = getNewPosts_def sortPosts_def channel_items_def channel_title_def item_pubDate_def
  item_post_def cacheHeaders_def modifiedSince_def

section \<open>Properties spanning the components\<close>

theorem transport_failure_retains:
  assumes "user_ok u"
    and "\<forall>s\<in>set (subscriptions u). feedCache (fetcher bs) (url s) = None \<and> net (url s) (cacheHeaders s) = None"
  shows "db (updateUserSubscriptions pd net clk None (load_user u) bs) (uid u) = Some u
    \<and> sent (updateUserSubscriptions pd net clk None (load_user u) bs) = sent bs"
  using assms by (simp add: updateUserSubscriptions_all [OF _ refl refl] fetch_batch_all_fail)

text \<open>C25: A subscription added by addSubscription after the fan-out read the user record is absent from the record updateUserSubscriptions writes back: the merge-back overwrites a concurrent subscribe.\<close>

theorem concurrent_subscribe_lost:
  assumes inv: "store_inv d" and got: "store_get d i = Some u" and add: "addSubscription d i c v = Inr d'"
  shows "(\<exists>u1. d' i = Some u1 \<and> v \<in> url ` set (subscriptions u1))
    \<and> (\<exists>u2. db (updateUserSubscriptions pd net clk None (load_user u) (bs\<lparr>db := d'\<rparr>)) i = Some u2
           \<and> v \<notin> url ` set (subscriptions u2))"
proof -
  have i: "uid u = i" and ok: "user_ok u"
    using inv got by (auto simp: store_inv_def store_get_def)
  have g: "get_or_new d i = u" using got by (simp add: get_or_new_def)
  with add have none: "find (\<lambda>s. url s = v) (subscriptions u) = None"
    and d': "d' = store_set d (u\<lparr>subscriptions := subscriptions u @ [newSubscription c v]\<rparr>)"
    by (auto simp: addSubscription_def Let_def split: if_splits)
  from none have v: "v \<notin> url ` set (subscriptions u)" by (auto simp: find_None_iff)
  let ?rs = "fst (fetch_batch pd net clk (subscriptions u) (fetcher (bs\<lparr>db := d'\<rparr>)))"
  have "url ` set (map2 outcome_sub (subscriptions u) ?rs) = url ` set (subscriptions u)"
    using batch_outcomes(2) [where rs = ?rs and pd = pd and net = net and clk = clk
        and subs = "subscriptions u" and st = "fetcher (bs\<lparr>db := d'\<rparr>)"]
    by (metis list.set_map)
  with v have "v \<notin> url ` set (map2 outcome_sub (subscriptions u) ?rs)" by simp
  moreover have "d' i = Some (u\<lparr>subscriptions := subscriptions u @ [newSubscription c v]\<rparr>)"
    using d' i by (simp add: store_set_def)
  moreover have "db (updateUserSubscriptions pd net clk None (load_user u) (bs\<lparr>db := d'\<rparr>)) i
      = Some (u\<lparr>subscriptions := map2 outcome_sub (subscriptions u) ?rs\<rparr>)"
    using stored_user [OF ok, of pd net clk "bs\<lparr>db := d'\<rparr>"] i by simp
  ultimately show ?thesis by simp
qed

text \<open>C33: When every fulfilled update of a user's fan-out comes from a feed without a title, every delivery attempt fails in renderPost, yet the user is stored with every fulfilled subscription's watermark advanced, so those posts are never delivered.\<close>

theorem untitled_feed_posts_lost:
  assumes ok: "user_ok u"
    and rs: "rs = fst (fetch_batch pd net clk (subscriptions u) (fetcher bs))"
    and untitled: "\<forall>up. Inr up \<in> set rs \<longrightarrow> feedTitle up = None"
  shows "(\<forall>(c, ft, p) \<in> set (drop (length (sent bs)) (sent (updateUserSubscriptions pd net clk None (load_user u) bs))).
            renderPost p ft = Inl TypeError)
    \<and> db (updateUserSubscriptions pd net clk None (load_user u) bs) (uid u)
        = Some (u\<lparr>subscriptions := map2 outcome_sub (subscriptions u) rs\<rparr>)"
proof -
  note all = updateUserSubscriptions_all [OF ok refl rs]
  have A: "renderPost p ft = Inl TypeError"
    if a: "(c, ft, p) \<in> set (concat (map2 attempts (subscriptions u) rs))" for c ft p
  proof -
    obtain up where "Inr up \<in> set rs" "ft = feedTitle up" using attempts_from [OF a] by auto
    with untitled have "ft = None" by simp
    then show ?thesis by (simp add: renderPost_def)
  qed
  have d: "drop (length (sent bs)) (sent (updateUserSubscriptions pd net clk None (load_user u) bs))
      = concat (map2 attempts (subscriptions u) rs)" by (simp add: all)
  have "db (updateUserSubscriptions pd net clk None (load_user u) bs) (uid u)
        = Some (u\<lparr>subscriptions := map2 outcome_sub (subscriptions u) rs\<rparr>)" by (simp add: all)
  moreover have "\<forall>(c, ft, p) \<in> set (concat (map2 attempts (subscriptions u) rs)). renderPost p ft = Inl TypeError"
    by (clarify, rule A)
  ultimately show ?thesis unfolding d by blast
qed

theorem renderPost_backslash_title_witness:
  "renderPost (ex_rpost (''a'' @ [bsl] @ ''*b'') None) (Some ''F'') =
     Inr (''*F: a'' @ [bsl, bsl] @ ''*b*'' @ [nl] @ ''u'' @ [nl] @ ''1970'' @ [bsl] @ ''-01'' @ [bsl] @ ''-01 00:00'')
   \<and> markup (''*F: a'' @ [bsl, bsl] @ ''*b*'' @ [nl] @ ''u'' @ [nl] @ ''1970'' @ [bsl] @ ''-01'' @ [bsl] @ ''-01 00:00'') = ''***''"
proof -
  have r: "renderPost (ex_rpost (''a'' @ [bsl] @ ''*b'') None) (Some ''F'') =
     Inr (''*F: a'' @ [bsl, bsl] @ ''*b*'' @ [nl] @ ''u'' @ [nl] @ ''1970'' @ [bsl] @ ''-01'' @ [bsl] @ ''-01 00:00'')"
    by code_simp
  have b: "bsl \<notin> set ''F''" "bsl \<notin> set ''a''" "bsl \<notin> set ''b''" "bsl \<notin> set ''u''" by (simp_all add: bsl_def)
  show ?thesis using renderPost_backslash_title [OF r _ _ _ b] r by (simp add: ex_rpost_def)
qed

theorem renderPost_hashtags_unescaped:
  "map_sum id markup (renderPost (ex_rpost ''a'' (Some [''x''])) (Some ''F'')) = Inr ''**#''"
  by code_simp

subsection \<open>The scenarios of the specification\<close>

lemma parse_ex: "parseRSS ex_doc = Inr ex_channel"
  by (simp add: ex_channel_def parseRSS_def ex_doc_def doc_getElementsByTagName_def getElementsByTagName_def parse_item_def)

lemma ex_batch_ok:
  "fetch_batch ex_dates (ex_net 200) (\<lambda>_. 5) [ex_sub 0] (ex_state Map.empty) =
     ([Inr (applyFeed ex_dates ex_fresh_feed (ex_sub 0))], \<lparr>feedCache = [''feed'' \<mapsto> ex_fresh_feed], requests = [(''feed'', NoCondition)]\<rparr>)"
  by (simp add: fetch_batch_def fsu_begin_def fsu_resume_def store_feed_def ex_state_def ex_net_def
      ex_sub_def parse_ex ex_fresh_feed_def cacheHeaders_def modifiedSince_def Let_def)

lemma ex_user_fields [simp]: "subscriptions ex_user = [ex_sub 0]" "uid ex_user = 7"
  by (simp_all add: ex_user_def)

lemma ex_user_ok: "user_ok ex_user"
  by (simp add: user_ok_def ex_user_def)

lemma ex_fresh_title [simp]: "channel_title (feed_channel ex_fresh_feed) = Some ''Feed''"
  by (simp add: ex_fresh_feed_def ex_channel_def channel_title_def)

lemma ex_fresh_time [simp]: "feed_lastFetched ex_fresh_feed = 5"
  by (simp add: ex_fresh_feed_def)

lemma ex_posts:
  "getNewPosts ex_dates ex_fresh_feed (ex_sub 0) =
     [item_post [''title'' \<mapsto> ''Post'', ''pubDate'' \<mapsto> ex_date 3] (3 * 86400000),
      item_post [''title'' \<mapsto> ''Post'', ''link'' \<mapsto> ''link'', ''pubDate'' \<mapsto> ex_date 2] (2 * 86400000),
      item_post [''pubDate'' \<mapsto> ex_date 1] 86400000]"
  by (simp add: ex_fresh_feed_def ex_channel_def ex_sub_def eval_defs ex_dates_def ex_date_def)

lemma ex_batch_untitled:
  "fst (fetch_batch ex_dates ex_net_untitled (\<lambda>_. 5) [ex_sub 0] (fetcher ex_bot)) =
     [Inr \<lparr>subscription = (ex_sub 0)\<lparr>lastFetched := 5\<rparr>, feedTitle = None,
           posts = [\<lparr>title = Some ''Post'', link = Some ''link'', description = None, pubDate = 172800000, hashtags = None\<rparr>]\<rparr>]"
  by code_simp

theorem scenario_first_fetch_ten:
  "map pubDate (getNewPosts ex_dates (ex_feed [1, 2, 3, 4, 5, 6, 7, 8, 9, 10]) (ex_sub 0))
     = map (\<lambda>d. d * 86400000) [10, 9, 8, 7, 6]"
  by (simp add: ex_defs eval_defs)

theorem scenario_equal_watermark:
  "getNewPosts ex_dates (ex_feed [3]) (ex_sub (3 * 86400000)) = []"
  by (simp add: ex_defs eval_defs)

theorem scenario_three_posts:
  "(let bs' = updateUserSubscriptions ex_dates (ex_net 200) (\<lambda>_. 5) None (load_user ex_user) ex_bot
    in map (\<lambda>(c, t, p). (c, pubDate p)) (sent bs') = [(123, 3 * 86400000), (123, 2 * 86400000), (123, 86400000)]
       \<and> map lastFetched (subscriptions (the (db bs' 7))) = [5])"
  by (simp add: updateUserSubscriptions_all [OF ex_user_ok refl refl] ex_bot_def ex_batch_ok ex_posts
      attempts_def outcome_sub_def item_post_def, simp add: ex_sub_def)

theorem scenario_shared_feed_transport_error:
  "(let bs1 = updateUserSubscriptions ex_dates ex_down (\<lambda>_. 5) None (load_user ex_user)
               (ex_bot\<lparr>db := [7 \<mapsto> ex_user, 8 \<mapsto> ex_user_b]\<rparr>);
        bs2 = updateUserSubscriptions ex_dates ex_down (\<lambda>_. 5) None (load_user ex_user_b) bs1
    in db bs2 7 = Some ex_user \<and> db bs2 8 = Some ex_user_b \<and> sent bs2 = [])"
proof -
  have ok: "user_ok ex_user" "user_ok ex_user_b" by (simp_all add: user_ok_def ex_user_def ex_user_b_def)
  have fa: "\<forall>s\<in>set (subscriptions v). feedCache (ex_state Map.empty) (url s) = None \<and> ex_down (url s) (cacheHeaders s) = None" for v
    by (simp add: ex_state_def ex_down_def)
  have "snd (fetch_batch ex_dates ex_down (\<lambda>_. 5) (subscriptions ex_user) (ex_state Map.empty)) = \<lparr>feedCache = Map.empty, requests = [(''feed'', NoCondition)]\<rparr>"
    by (simp add: fetch_batch_def fsu_begin_def fsu_resume_def store_feed_def ex_state_def ex_down_def
        ex_user_def ex_sub_def cacheHeaders_def modifiedSince_def)
  moreover have "\<forall>s\<in>set (subscriptions ex_user_b). feedCache \<lparr>feedCache = Map.empty, requests = [(''feed'', NoCondition)]\<rparr> (url s) = None \<and> ex_down (url s) (cacheHeaders s) = None"
    by (simp add: ex_down_def)
  ultimately show ?thesis
    using ok fa [of ex_user]
    by (simp add: updateUserSubscriptions_all [OF _ refl refl] fetch_batch_all_fail ex_bot_def,
        simp add: ex_user_def ex_user_b_def outcome_sub_def attempts_def)
qed

section \<open>Witnesses\<close>

theorem getNewPosts_newer_witness:
  "ex_post 3 \<in> set (getNewPosts ex_dates (ex_feed [1, 2, 3]) (ex_sub 1)) \<and> lastFetched (ex_sub 1) < pubDate (ex_post 3)"
  using getNewPosts_newer [of "ex_post 3" ex_dates "ex_feed [1, 2, 3]" "ex_sub 1"]
  by (simp add: ex_defs eval_defs)

theorem getNewPosts_first_fetch_witness:
  "lastFetched (ex_sub 0) = 0 \<and> length (getNewPosts ex_dates (ex_feed [1, 2, 3, 4, 5, 6, 7]) (ex_sub 0)) \<le> 5"
  using getNewPosts_first_fetch [of "ex_sub 0" ex_dates "ex_feed [1, 2, 3, 4, 5, 6, 7]"]
  by (simp add: ex_sub_def)

theorem getNewPosts_stable_sort_witness:
  "getNewPosts ex_dates (ex_feed [3, 2, 2]) (ex_sub 1) = map ex_post [3, 2, 2]"
proof -
  let ?c = "collectPosts ex_dates (lastFetched (ex_sub 1)) (channel_items (feed_channel (ex_feed [3, 2, 2])))"
  have c: "?c = map ex_post [3, 2, 2]" by (simp add: ex_defs eval_defs)
  have "desc_by pubDate (map ex_post [3, 2, 2])" by (simp add: desc_by_def ex_post_def item_post_def)
  moreover have "lastFetched (ex_sub 1) \<noteq> 0" by (simp add: ex_sub_def)
  ultimately show ?thesis using c getNewPosts_stable_sort [of "ex_sub 1" "map ex_post [3, 2, 2]" ex_dates "ex_feed [3, 2, 2]"]
    by simp
qed

theorem fetchSubscriptionUpdates_cache_hit_witness:
  "snd (fetchSubscriptionUpdates ex_dates (ex_net 200) 5 (ex_sub 0) (ex_state [''feed'' \<mapsto> ex_feed [1]]))
     = ex_state [''feed'' \<mapsto> ex_feed [1]]"
  using fetchSubscriptionUpdates_cache_hit [of "ex_state [''feed'' \<mapsto> ex_feed [1]]" "ex_sub 0" "ex_feed [1]"
     ex_dates "ex_net 200" 5 "fst (fetchSubscriptionUpdates ex_dates (ex_net 200) 5 (ex_sub 0) (ex_state [''feed'' \<mapsto> ex_feed [1]]))"
     "snd (fetchSubscriptionUpdates ex_dates (ex_net 200) 5 (ex_sub 0) (ex_state [''feed'' \<mapsto> ex_feed [1]]))"]
  by (simp add: ex_state_def ex_sub_def)

theorem fetchSubscriptionUpdates_not_modified_witness:
  "fetchSubscriptionUpdates ex_dates (ex_net 304) 5 (ex_sub 0) (ex_state Map.empty) =
     (Inr \<lparr>subscription = ex_sub 0, feedTitle = Some [], posts = []\<rparr>, \<lparr>feedCache = Map.empty, requests = [(''feed'', NoCondition)]\<rparr>)"
  using fetchSubscriptionUpdates_not_modified [of "ex_state Map.empty" "ex_sub 0" "ex_net 304"
     "\<lparr>status = 304, resp_etag = Some ''etag2'', resp_body = ex_doc\<rparr>" ex_dates 5]
  by (simp add: ex_state_def ex_sub_def ex_net_def eval_defs)

theorem fetchSubscriptionUpdates_advances_witness:
  "feedCache (snd (fetchSubscriptionUpdates ex_dates (ex_net 200) 5 (ex_sub 0) (ex_state Map.empty))) ''feed''
     = Some \<lparr>feed_channel = ex_channel, feed_etag = Some ''etag2'', feed_lastFetched = 5\<rparr>"
  using fetchSubscriptionUpdates_advances [of "ex_state Map.empty" "ex_sub 0" "ex_net 200"
     "\<lparr>status = 200, resp_etag = Some ''etag2'', resp_body = ex_doc\<rparr>" ex_channel ex_dates 5
     "fst (fetchSubscriptionUpdates ex_dates (ex_net 200) 5 (ex_sub 0) (ex_state Map.empty))"
     "snd (fetchSubscriptionUpdates ex_dates (ex_net 200) 5 (ex_sub 0) (ex_state Map.empty))"]
  by (auto simp: ex_state_def ex_sub_def ex_net_def parse_ex)

theorem fetchSubscriptionUpdates_failure_witness:
  "feedCache (snd (fetchSubscriptionUpdates ex_dates (ex_net 200) 5 ((ex_sub 0)\<lparr>url := ''other''\<rparr>) (ex_state Map.empty))) = Map.empty"
  using fetchSubscriptionUpdates_failure [of ex_dates "ex_net 200" 5 "(ex_sub 0)\<lparr>url := ''other''\<rparr>" "ex_state Map.empty"
     TransportError "snd (fetchSubscriptionUpdates ex_dates (ex_net 200) 5 ((ex_sub 0)\<lparr>url := ''other''\<rparr>) (ex_state Map.empty))"]
  by (simp add: ex_state_def ex_sub_def ex_net_def fetchSubscriptionUpdates_def fsu_begin_def fsu_resume_def store_feed_def eval_defs)

theorem fetch_seq_one_request_witness:
  "requests (snd (fetch_seq ex_dates (ex_net 200) (\<lambda>i. 5) 0 [ex_sub 0, (ex_sub 0)\<lparr>chatId := 9\<rparr>, (ex_sub 7)] (ex_state Map.empty)))
     = [(''feed'', NoCondition)]"
  using fetch_seq_one_request [of "[(ex_sub 0)\<lparr>chatId := 9\<rparr>, (ex_sub 7)]" "ex_sub 0" "ex_state Map.empty" "ex_net 200"
     "\<lparr>status = 200, resp_etag = Some ''etag2'', resp_body = ex_doc\<rparr>" ex_channel ex_dates "\<lambda>i. 5" 0]
  by (simp add: ex_state_def ex_sub_def ex_net_def eval_defs parse_ex)

theorem store_run_inv_witness:
  "store_inv (store_run Map.empty [AddUser 7, AddSubscription 7 123 ''feed'', AddSubscription 7 5 ''feed'', DeleteSubscription 7 ''x''])"
  using store_run_inv [of "Map.empty" "[AddUser 7, AddSubscription 7 123 ''feed'', AddSubscription 7 5 ''feed'', DeleteSubscription 7 ''x'']"]
  by (simp add: store_inv_def)

theorem addSubscription_duplicate_witness:
  "addSubscription [7 \<mapsto> ex_user] 7 5 ''feed'' = Inl AlreadySubscribed"
  using addSubscription_duplicate [of "[7 \<mapsto> ex_user]" 7 ex_user "ex_sub 0" 5]
  by (simp add: store_get_def ex_user_def ex_sub_def)

theorem addSubscription_new_witness:
  "addSubscription [7 \<mapsto> ex_user] 7 5 ''other'' = Inr [7 \<mapsto> ex_user\<lparr>subscriptions := [ex_sub 0, newSubscription 5 ''other'']\<rparr>]"
  using addSubscription_new [of "[7 \<mapsto> ex_user]" 7 "''other''" 5]
  by (simp add: store_inv_def user_ok_def get_or_new_def store_get_def ex_user_def ex_sub_def)

theorem deleteSubscription_removes_witness:
  "\<exists>user. (store_set [7 \<mapsto> ex_user] (ex_user\<lparr>subscriptions := []\<rparr>)) 7 = Some user \<and> subscriptions user = []"
  using deleteSubscription_removes [of "[7 \<mapsto> ex_user]" 7 "''feed''"]
  by (simp add: store_inv_def user_ok_def deleteSubscription_def get_or_new_def store_get_def store_set_def ex_user_def ex_sub_def)

theorem updateUserSubscriptions_advances_witness:
  "\<exists>u'. db (updateUserSubscriptions ex_dates (ex_net 200) (\<lambda>_. 5) None (load_user ex_user) ex_bot) 7 = Some u'
     \<and> subscriptions u' ! 0 = subscription (applyFeed ex_dates ex_fresh_feed (ex_sub 0))"
proof -
  have "fst (fetch_batch ex_dates (ex_net 200) (\<lambda>_. 5) (subscriptions ex_user) (fetcher ex_bot)) ! 0
      = Inr (applyFeed ex_dates ex_fresh_feed (ex_sub 0))"
    by (simp add: ex_bot_def ex_batch_ok)
  from updateUserSubscriptions_advances [OF ex_user_ok _ this] show ?thesis by simp
qed

theorem updateUserSubscriptions_failure_isolated_witness:
  "\<exists>u'. db (updateUserSubscriptions ex_dates ex_down (\<lambda>_. 5) None (load_user ex_user) ex_bot) 7 = Some u'
     \<and> subscriptions u' ! 0 = ex_sub 0"
proof -
  have "fst (fetch_batch ex_dates ex_down (\<lambda>_. 5) (subscriptions ex_user) (fetcher ex_bot)) ! 0 = Inl TransportError"
    by (simp add: ex_bot_def fetch_batch_all_fail ex_state_def ex_down_def)
  from updateUserSubscriptions_failure_isolated [OF ex_user_ok _ this] show ?thesis by simp
qed

theorem updateUserSubscriptions_delivers_witness:
  "length (sent (updateUserSubscriptions ex_dates (ex_net 200) (\<lambda>_. 5) None (load_user ex_user) ex_bot)) = 3"
  using updateUserSubscriptions_delivers [OF ex_user_ok, of ex_dates "ex_net 200" "\<lambda>_. 5" ex_bot]
  by (simp add: ex_bot_def ex_batch_ok ex_posts attempts_def)

theorem cached_feed_never_refreshed_witness:
  "fetchSubscriptionUpdates ex_dates (ex_net 200) 5 (ex_sub 0) (ex_state [''feed'' \<mapsto> ex_feed [1]])
   = fetchSubscriptionUpdates ex_dates (ex_net 404) 99 (ex_sub 0) (ex_state [''feed'' \<mapsto> ex_feed [1]])"
  using cached_feed_never_refreshed [of "ex_state [''feed'' \<mapsto> ex_feed [1]]" "ex_sub 0" "ex_feed [1]"
      ex_dates "ex_net 200" 5 "ex_net 404" 99]
  by (simp add: ex_state_def ex_sub_def)

theorem watermark_from_cache_witness:
  "lastFetched (subscription (applyFeed ex_dates ex_fresh_feed (ex_sub 100))) = 5 \<and> 5 < lastFetched (ex_sub 100)"
proof -
  have c: "feedCache (ex_state [''feed'' \<mapsto> ex_fresh_feed]) (url (ex_sub 100)) = Some ex_fresh_feed"
    by (simp add: ex_state_def ex_sub_def)
  then have "fetchSubscriptionUpdates ex_dates (ex_net 200) 5 (ex_sub 100) (ex_state [''feed'' \<mapsto> ex_fresh_feed])
      = (Inr (applyFeed ex_dates ex_fresh_feed (ex_sub 100)), ex_state [''feed'' \<mapsto> ex_fresh_feed])"
    by (rule fetchSubscriptionUpdates_hit)
  with c show ?thesis
    using watermark_from_cache [of "ex_state [''feed'' \<mapsto> ex_fresh_feed]" "ex_sub 100" ex_fresh_feed ex_dates "ex_net 200" 5]
    by (simp add: ex_fresh_feed_def ex_sub_def)
qed

theorem transport_failure_retains_witness:
  "db (updateUserSubscriptions ex_dates ex_down (\<lambda>_. 5) None (load_user ex_user) ex_bot) 7 = Some ex_user"
  using transport_failure_retains [OF ex_user_ok, of ex_bot ex_down ex_dates "\<lambda>_. 5"]
  by (simp add: ex_bot_def ex_state_def ex_down_def)

theorem concurrent_subscribe_lost_witness:
  "\<exists>u2. db (updateUserSubscriptions ex_dates (ex_net 200) (\<lambda>_. 5) None (load_user ex_user)
              (ex_bot\<lparr>db := [7 \<mapsto> ex_user\<lparr>subscriptions := [ex_sub 0, newSubscription 5 ''other'']\<rparr>]\<rparr>)) 7 = Some u2
     \<and> ''other'' \<notin> url ` set (subscriptions u2)"
proof -
  have inv: "store_inv [7 \<mapsto> ex_user]" by (simp add: store_inv_def user_ok_def ex_user_def)
  have add: "addSubscription [7 \<mapsto> ex_user] 7 5 ''other'' = Inr [7 \<mapsto> ex_user\<lparr>subscriptions := [ex_sub 0, newSubscription 5 ''other'']\<rparr>]"
    by (simp add: addSubscription_def get_or_new_def store_get_def store_set_def ex_user_def ex_sub_def)
  have got: "store_get [7 \<mapsto> ex_user] 7 = Some ex_user" by (simp add: store_get_def)
  from concurrent_subscribe_lost [OF inv got add, where pd = ex_dates and net = "ex_net 200"
      and clk = "\<lambda>_. 5" and bs = ex_bot]
  show ?thesis by blast
qed

theorem untitled_feed_posts_lost_witness:
  "map (\<lambda>(c, ft, p). renderPost p ft)
     (sent (updateUserSubscriptions ex_dates ex_net_untitled (\<lambda>_. 5) None (load_user ex_user) ex_bot)) = [Inl TypeError]
   \<and> db (updateUserSubscriptions ex_dates ex_net_untitled (\<lambda>_. 5) None (load_user ex_user) ex_bot) 7
      = Some (ex_user\<lparr>subscriptions := [(ex_sub 0)\<lparr>lastFetched := 5\<rparr>]\<rparr>)"
proof -
  have h: "\<forall>up. Inr up \<in> set (fst (fetch_batch ex_dates ex_net_untitled (\<lambda>_. 5) (subscriptions ex_user) (fetcher ex_bot)))
      \<longrightarrow> feedTitle up = None" by (simp add: ex_batch_untitled)
  note w = untitled_feed_posts_lost [OF ex_user_ok refl h]
  have s: "sent ex_bot = []" by (simp add: ex_bot_def)
  have l: "length (sent (updateUserSubscriptions ex_dates ex_net_untitled (\<lambda>_. 5) None (load_user ex_user) ex_bot)) = 1"
    by (simp add: updateUserSubscriptions_all [OF ex_user_ok refl refl] ex_batch_untitled s attempts_def)
  then obtain a where a: "sent (updateUserSubscriptions ex_dates ex_net_untitled (\<lambda>_. 5) None (load_user ex_user) ex_bot) = [a]"
    by (auto simp: length_Suc_conv)
  show ?thesis using w a by (auto simp: ex_batch_untitled s outcome_sub_def)
qed



theorem escapeTg_displays_witness:
  "md_text (escapeTg ''a.b'') = ''a.b'' \<and> markup (escapeTg ''a.b'') = []"
  using escapeTg_displays [of "''a.b''"] by (simp add: bsl_def)


theorem Command_roundtrip_bare_witness:
  "Command (CHR ''/'' # cmd_value UNSUBSCRIBE_ALL) = (UNSUBSCRIBE_ALL, None)"
  using Command_roundtrip_bare [of UNSUBSCRIBE_ALL] by simp

theorem Command_roundtrip_url_witness:
  "Command (CHR ''/'' # cmd_value SUBSCRIBE @ CHR '' '' # ''http://x'') = (SUBSCRIBE, Some ''http://x'')"
  using Command_roundtrip_url [of SUBSCRIBE "''http://x''"] by (simp add: is_space_def is_line_terminator_def)

lemmas cmd_eval = command_of_def Command_ref command_ref_def cmd_args_def is_word_def is_space_def
  is_line_terminator_def parseCommandType_def ex_msg_def

theorem exec_store_inv_witness:
  "store_inv (db (bot (exec ex_dates (ex_net 200) (\<lambda>_. 5) ''boom'' (ex_msg ''/unsub feed'') ex_cs)))"
proof -
  have "store_inv (db (bot ex_cs))"
    by (simp add: store_inv_def user_ok_def ex_cs_def ex_bot_def ex_user_def ex_sub_def)
  then show ?thesis by (rule exec_store_inv)
qed

theorem exec_replies_once_witness:
  "\<exists>pre txt. outbox (exec ex_dates (ex_net 200) (\<lambda>_. 5) ''boom'' (ex_msg ''/list'') ex_cs)
     = outbox ex_cs @ pre @ [SendMessage 123 txt] \<and> set pre \<subseteq> {RegisterCommands 123}"
proof -
  have "fst (command_of (ex_msg ''/list'')) \<noteq> FETCH" by (simp add: cmd_eval)
  from exec_replies_once [OF this, of ex_dates "ex_net 200" "\<lambda>_. 5" "''boom''" ex_cs] show ?thesis
    by (simp add: ex_msg_def)
qed

theorem exec_fetch_silent_witness:
  "exec ex_dates (ex_net 200) (\<lambda>_. 5) ''boom'' (ex_msg ''/fetch'') ex_cs
     = ex_cs\<lparr>bot := updateUserSubscriptions ex_dates (ex_net 200) (\<lambda>_. 5) (Some 123) (load_user ex_user) ex_bot\<rparr>"
proof -
  have "fst (command_of (ex_msg ''/fetch'')) = FETCH" by (simp add: cmd_eval)
  moreover have "db (bot ex_cs) 7 = Some ex_user" by (simp add: ex_cs_def ex_bot_def)
  ultimately show ?thesis
    using exec_fetch_silent [of "ex_msg ''/fetch''" 7 ex_cs ex_user ex_dates "ex_net 200" "\<lambda>_. 5" "''boom''"]
    by (simp add: ex_msg_def ex_cs_def)
qed

theorem exec_start_help_witness:
  "exec ex_dates (ex_net 200) (\<lambda>_. 5) ''boom'' (ex_msg ''/start'') ex_cs = help_cmd (ex_msg ''/start'') ex_cs
   \<and> bot (exec ex_dates (ex_net 200) (\<lambda>_. 5) ''boom'' (ex_msg ''/start'') ex_cs) = bot ex_cs"
  using exec_start_help [of "ex_msg ''/start''" ex_dates "ex_net 200" "\<lambda>_. 5" "''boom''" ex_cs]
  by (simp add: ex_msg_def)

theorem exec_list_new_user_witness:
  "exec ex_dates (ex_net 200) (\<lambda>_. 5) ''boom'' \<lparr>msg_chat = 9, msg_from = Some 8, msg_text = Some ''/list''\<rparr> ex_cs
     = send 9 ''Error: Error: User not found.'' ex_cs"
proof -
  have "fst (command_of \<lparr>msg_chat = 9, msg_from = Some 8, msg_text = Some ''/list''\<rparr>) = LIST" by (simp add: cmd_eval)
  moreover have "db (bot ex_cs) 8 = None" by (simp add: ex_cs_def ex_bot_def)
  ultimately show ?thesis using exec_list_new_user by simp
qed

theorem exec_subscribe_new_witness:
  "\<exists>user. db (bot (exec ex_dates (ex_net 200) (\<lambda>_. 5) ''boom'' \<lparr>msg_chat = 9, msg_from = Some 8, msg_text = Some ''/sub feed''\<rparr> ex_cs)) 8 = Some user
     \<and> subscriptions user = [newSubscription 9 ''feed'']
     \<and> outbox (exec ex_dates (ex_net 200) (\<lambda>_. 5) ''boom'' \<lparr>msg_chat = 9, msg_from = Some 8, msg_text = Some ''/sub feed''\<rparr> ex_cs)
         = [SendMessage 9 ''Subscribed to: Feed'']"
proof -
  let ?m = "\<lparr>msg_chat = 9, msg_from = Some 8, msg_text = Some ''/sub feed''\<rparr>"
  have c: "command_of ?m = (SUBSCRIBE, Some ''feed'')" by (simp add: cmd_eval)
  have inv: "store_inv (db (bot ex_cs))" by (simp add: store_inv_def user_ok_def ex_cs_def ex_bot_def ex_user_def ex_sub_def)
  have r: "ex_net 200 ''feed'' NoCondition = Some \<lparr>status = 200, resp_etag = Some ''etag2'', resp_body = ex_doc\<rparr>"
    by (simp add: ex_net_def)
  have f: "parseRSS (resp_body \<lparr>status = 200, resp_etag = Some ''etag2'', resp_body = ex_doc\<rparr>) = Inr ex_channel"
    by (simp add: parse_ex)
  have g: "get_or_new (db (bot ex_cs)) 8 = newUser 8" by (simp add: get_or_new_def store_get_def ex_cs_def ex_bot_def)
  have t: "js_str (channel_title ex_channel) = ''Feed''" by (simp add: js_str_def channel_title_def ex_channel_def)
  show ?thesis
    using exec_subscribe_new [where net = "ex_net 200" and i = 8 and pd = ex_dates and clk = "\<lambda>_. 5"
        and terr = "''boom''", OF c _ _ inv r f] g t
    by (simp add: newUser_def ex_cs_def)
qed


theorem received_text_plain_witness:
  "received_text ''123:AB'' (SendMessage 5 (''Subscribed feeds:'' @ [nl] @ ''- feed'')) = Some ''Subscribed feeds:- feed''"
  using received_text_plain [of "''123:AB''" "''Subscribed feeds:'' @ [nl] @ ''- feed''" 5]
  by (simp add: nl_def url_noise_def c0_space_def)

theorem received_text_amp_witness:
  "received_text ''123:AB'' (SendMessage 5 (''Unsubscribed from: http://x/?a=1'' @ CHR ''&'' # ''b=2''))
     = Some ''Unsubscribed from: http://x/?a=1''"
  using received_text_amp [of "''123:AB''" "''Unsubscribed from: http://x/?a=1''" 5 "''b=2''"]
  by (simp add: url_noise_def)

theorem worker_fetch_unauthenticated_witness:
  "(case worker_fetch ex_dates (ex_net 200) (\<lambda>_. 5) ''boom'' ex_env
          \<lparr>rq_method = ''POST'', rq_secret = Some ''guess'', rq_body = BodyUpdate (Some (ex_msg ''/unsub_all''))\<rparr> ex_cs of
     Inr (r, st') \<Rightarrow> st' = ex_cs | Inl e \<Rightarrow> False)"
proof -
  have eq: "worker_fetch ex_dates (ex_net 200) (\<lambda>_. 5) ''boom'' ex_env
      \<lparr>rq_method = ''POST'', rq_secret = Some ''guess'', rq_body = BodyUpdate (Some (ex_msg ''/unsub_all''))\<rparr> ex_cs
      = Inr (Response 401 ''Unauthorized'', ex_cs)"
    by (simp add: worker_fetch_def ex_env_def)
  have "ex_cs = ex_cs" by (rule worker_fetch_unauthenticated [OF _ eq]) (simp add: ex_env_def)
  then show ?thesis by (simp add: eq)
qed

theorem worker_fetch_exec_witness:
  "worker_fetch ex_dates (ex_net 200) (\<lambda>_. 5) ''boom'' ex_env
     \<lparr>rq_method = ''POST'', rq_secret = Some ''s3cret'', rq_body = BodyUpdate (Some (ex_msg ''/list''))\<rparr> ex_cs
   = Inr (Response 200 ''OK'', exec ex_dates (ex_net 200) (\<lambda>_. 5) ''boom'' (ex_msg ''/list'') ex_cs)"
  by (rule worker_fetch_exec) (simp_all add: ex_env_def)

theorem filterTags_keeps_allowed_witness:
  "filterTags (CHR ''<'' # ''b'' @ replicate 1 CHR ''s'' @ CHR ''>'' # ''hi'')
     = CHR ''<'' # ''b'' @ replicate 1 CHR ''s'' @ CHR ''>'' # filterTags ''hi''"
  using filterTags_keeps_allowed [of "''b''" 1 "''hi''"] by (simp add: allowedTags_def)

theorem filterTags_removes_witness:
  "filterTags (CHR ''<'' # ''b '' @ CHR ''>'' # ''y</b>'') = filterTags ''y</b>''"
  using filterTags_removes [of "''b ''" "''y</b>''"]
  by (simp add: allowed_ahead_def tag_close_def allowedTags_def)

theorem truncate_desc_bound_witness:
  "int (length (truncate_desc 4 ''abcdef'')) \<le> 4"
  using truncate_desc_bound [of 4 "''abcdef''"] by simp

theorem cstep_reachable_inv_witness:
  "csys_inv \<lparr>ckv = [7 \<mapsto> newUser 7], running = [(AddSubscription 7 1 ''a'', newUser 7)]\<rparr>"
proof -
  have "cstep\<^sup>*\<^sup>* \<lparr>ckv = [7 \<mapsto> newUser 7], running = []\<rparr>
      \<lparr>ckv = [7 \<mapsto> newUser 7], running = [(AddSubscription 7 1 ''a'', newUser 7)]\<rparr>"
    using cstep_start [of "AddSubscription 7 1 ''a''" "[7 \<mapsto> newUser 7]" "[]"]
    by (simp add: op_snapshot_def get_or_new_def store_get_def)
  moreover have "csys_inv \<lparr>ckv = [7 \<mapsto> newUser 7], running = []\<rparr>"
    by (simp add: csys_inv_def store_inv_def newUser_ok)
  ultimately show ?thesis by (rule cstep_reachable_inv)
qed

theorem cstep_lost_subscribe_witness:
  "cstep\<^sup>*\<^sup>* \<lparr>ckv = [7 \<mapsto> newUser 7], running = []\<rparr>
     \<lparr>ckv = [7 \<mapsto> (newUser 7)\<lparr>subscriptions := [newSubscription 1 ''a'']\<rparr>],
      running = [(AddSubscription 7 2 ''b'', newUser 7)]\<rparr>
   \<and> cstep \<lparr>ckv = [7 \<mapsto> (newUser 7)\<lparr>subscriptions := [newSubscription 1 ''a'']\<rparr>],
            running = [(AddSubscription 7 2 ''b'', newUser 7)]\<rparr>
     \<lparr>ckv = [7 \<mapsto> (newUser 7)\<lparr>subscriptions := [newSubscription 2 ''b'']\<rparr>], running = []\<rparr>
   \<and> ''a'' \<notin> set (map url [newSubscription 2 ''b''])
   \<and> store_run [7 \<mapsto> newUser 7] [AddSubscription 7 1 ''a'', AddSubscription 7 2 ''b'']
     = [7 \<mapsto> (newUser 7)\<lparr>subscriptions := [newSubscription 1 ''a'', newSubscription 2 ''b'']\<rparr>]"
proof -
  have g: "get_or_new [7 \<mapsto> newUser 7] 7 = newUser 7" by (simp add: get_or_new_def store_get_def)
  have "store_inv [7 \<mapsto> newUser 7]" by (simp add: store_inv_def user_ok_def newUser_def)
  from cstep_lost_subscribe [OF this, of "''a''" "''b''" 7 1 2]
  show ?thesis unfolding g by (simp add: newUser_def)
qed

end
